theory Spec2Isabelle
  imports Main
begin

section \<open>Data model\<close>

text \<open>
  The shop application keeps three tables (Tag, Product, ProductOption) and a
  many-to-many association between products and tags. Primary keys are Python integers.
\<close>

type_synonym pk = int

text \<open>
  Modelled from the spec: the model classes of \<^verbatim>\<open>models.py\<close> (section 3 of the
  specification): Tag \<open>{id, name}\<close>, Product \<open>{id, name}\<close> and
  ProductOption \<open>{id, product_id, name, price}\<close>.
\<close>

record Tag =
  tag_pk :: pk
  tag_name :: string

record Product =
  product_pk :: pk
  product_name :: string

record ProductOption =
  option_pk :: pk
  option_product :: pk
  option_name :: string
  option_price :: int

text \<open>
  The entity store: the rows of each table in insertion order, and for every product
  the set of tag keys associated with it (\<^verbatim>\<open>product.tag_set\<close>).
\<close>

record store =
  tag_rows :: "Tag list"
  product_rows :: "Product list"
  option_rows :: "ProductOption list"
  tag_set_of :: "pk \<Rightarrow> pk set"

text \<open>
  The nested entries of a payload as the serializer methods receive them: a tag entry is
  a dictionary that may or may not have the keys \<^verbatim>\<open>pk\<close> and \<^verbatim>\<open>name\<close>; an option
  entry has a name, a price and possibly a \<^verbatim>\<open>pk\<close>. In \<open>product_data\<close> a field that
  is \<open>None\<close> is a key absent from the dictionary. The same records hold the
  payload of a request and the validated data that the serializer methods are called
  with; validation, below, leads from the one to the other.
\<close>

record tag_data =
  td_pk :: "pk option"
  td_name :: "string option"

record option_spec =
  os_pk :: "pk option"
  os_name :: string
  os_price :: int

record product_data =
  pd_name :: "string option"
  pd_option_set :: "option_spec list option"
  pd_tag_set :: "tag_data list option"

text \<open>
  Errors are values. A validation error carries the path of field keys under which it is
  reported and its message; \<open>OptionNameRequired\<close> is the text raised by
  \<^verbatim>\<open>validate_name\<close>, \<open>TagIdNotFound p\<close> the text of \<^verbatim>\<open>_process_tags\<close>, which
  interpolates the primary key \<open>p\<close>. \<open>MultipleObjectsReturned\<close> is what
  \<^verbatim>\<open>get_or_create\<close> raises when several rows match, \<open>NotFound\<close> the 404 of a view.
\<close>

datatype message = OptionNameRequired | TagIdNotFound pk

datatype error = ValidationError "string list" message | MultipleObjectsReturned | NotFound

section \<open>Option names\<close>

text \<open>
  Python's \<^verbatim>\<open>str.strip()\<close> removes the leading and trailing characters for which
  \<^verbatim>\<open>str.isspace\<close> holds. Strings are lists of characters with code points below 256,
  where these are 9 to 13, 28 to 32, 133 and 160.
\<close>

definition is_space :: "char \<Rightarrow> bool" where
  "is_space c =
     (let n = (of_char c :: nat)
      in (9 \<le> n \<and> n \<le> 13) \<or> (28 \<le> n \<and> n \<le> 32) \<or> n = 133 \<or> n = 160)"

definition strip :: "string \<Rightarrow> string" where
  "strip v = rev (dropWhile is_space (rev (dropWhile is_space v)))"

text \<open>
  \<^verbatim>\<open>ProductOptionSerializer.validate_name\<close>: raise when the value is empty or blank,
  return the stripped value otherwise. The exception is raised without a key.
\<close>

definition validate_name :: "string \<Rightarrow> error + string" where
  "validate_name v =
     (if v = [] \<or> strip v = [] then Inl (ValidationError [] OptionNameRequired)
      else Inr (strip v))"

text \<open>
  The hook runs for the field \<^verbatim>\<open>name\<close> of every entry of \<^verbatim>\<open>option_set\<close>; its error
  is reported under these keys and the entry's name is replaced by what the hook returns.
  The first failing entry ends the validation of the model; nothing has been written by
  then.
\<close>

definition validate_option :: "option_spec \<Rightarrow> error + option_spec" where
  "validate_option sp =
     (case validate_name (os_name sp) of
        Inl (ValidationError ks m) \<Rightarrow> Inl (ValidationError (''option_set'' # ''name'' # ks) m)
      | Inl e \<Rightarrow> Inl e
      | Inr n \<Rightarrow> Inr (sp\<lparr>os_name := n\<rparr>))"

fun validate_options :: "option_spec list \<Rightarrow> error + option_spec list" where
  "validate_options [] = Inr []"
| "validate_options (sp # sps) =
     (case validate_option sp of
        Inl e \<Rightarrow> Inl e
      | Inr sp' \<Rightarrow> (case validate_options sps of Inl e \<Rightarrow> Inl e | Inr sps' \<Rightarrow> Inr (sp' # sps')))"

text \<open>
  \<^verbatim>\<open>TagSerializer\<close>: its fields are \<^verbatim>\<open>pk\<close> and \<^verbatim>\<open>name\<close>, and \<^verbatim>\<open>pk\<close> is listed
  in \<^verbatim>\<open>read_only_fields\<close>, so a submitted key is not part of the validated entry. The
  name field is the one the framework derives from the name column of \<^verbatim>\<open>models.py\<close>,
  which is not among the sources. It is a parameter here: it takes the submitted name
  (\<open>None\<close> when the key is absent) and gives the validated name or an error.
\<close>

type_synonym name_field = "string option \<Rightarrow> error + string option"

definition TagSerializer :: "name_field \<Rightarrow> tag_data \<Rightarrow> error + tag_data" where
  "TagSerializer name_field td =
     (case name_field (td_name td) of
        Inl e \<Rightarrow> Inl e
      | Inr n \<Rightarrow> Inr \<lparr>td_pk = None, td_name = n\<rparr>)"

fun validate_tags :: "name_field \<Rightarrow> tag_data list \<Rightarrow> error + tag_data list" where
  "validate_tags name_field [] = Inr []"
| "validate_tags name_field (td # tds) =
     (case TagSerializer name_field td of
        Inl e \<Rightarrow> Inl e
      | Inr td' \<Rightarrow>
          (case validate_tags name_field tds of Inl e \<Rightarrow> Inl e | Inr tds' \<Rightarrow> Inr (td' # tds')))"

text \<open>
  The validation of a payload by \<^verbatim>\<open>ProductSerializer\<close>: the entries of
  \<^verbatim>\<open>option_set\<close> go through \<^verbatim>\<open>ProductOptionSerializer\<close> and those of \<^verbatim>\<open>tag_set\<close>
  through \<^verbatim>\<open>TagSerializer\<close>; both fields are optional (\<^verbatim>\<open>required=False\<close>). The key
  of an option entry is kept, since the option reconciler of the specification is keyed
  by it (section 4.1).
\<close>

definition run_validation :: "name_field \<Rightarrow> product_data \<Rightarrow> error + product_data" where
  "run_validation name_field pd =
     (case (case pd_option_set pd of
              None \<Rightarrow> Inr None
            | Some sps \<Rightarrow>
                (case validate_options sps of Inl e \<Rightarrow> Inl e | Inr sps' \<Rightarrow> Inr (Some sps'))) of
        Inl e \<Rightarrow> Inl e
      | Inr option_set \<Rightarrow>
          (case (case pd_tag_set pd of
                   None \<Rightarrow> Inr None
                 | Some tds \<Rightarrow>
                     (case validate_tags name_field tds of
                        Inl e \<Rightarrow> Inl e
                      | Inr tds' \<Rightarrow> Inr (Some tds'))) of
             Inl e \<Rightarrow> Inl e
           | Inr tag_set \<Rightarrow> Inr (pd\<lparr>pd_option_set := option_set, pd_tag_set := tag_set\<rparr>)))"

text \<open>
  Two name fields for the examples: one that delivers the name as it was submitted, and
  one that strips the surrounding whitespace.
\<close>

definition plain_field :: name_field where
  "plain_field v = Inr v"

definition trimming_field :: name_field where
  "trimming_field v = Inr (map_option strip v)"

section \<open>Tag reconciliation\<close>

text \<open>
  New rows get a key above every key of the table, as an auto-increment column does.
\<close>

definition fresh_pk :: "pk list \<Rightarrow> pk" where
  "fresh_pk ks = fold max ks 0 + 1"

text \<open>\<^verbatim>\<open>Tag.objects.get(pk=...)\<close>: the row with that key, \<open>None\<close> for \<^verbatim>\<open>DoesNotExist\<close>.\<close>

definition get_tag :: "store \<Rightarrow> pk \<Rightarrow> Tag option" where
  "get_tag s p = find (\<lambda>t. tag_pk t = p) (tag_rows s)"

text \<open>
  \<^verbatim>\<open>Tag.objects.get_or_create(name=...)\<close>: the row with exactly that name if there is
  one, a new row if there is none, and \<^verbatim>\<open>MultipleObjectsReturned\<close> if there are several
  (the name column is not unique).
\<close>

definition get_or_create :: "store \<Rightarrow> string \<Rightarrow> (error + Tag) \<times> store" where
  "get_or_create s n =
     (case filter (\<lambda>t. tag_name t = n) (tag_rows s) of
        [] \<Rightarrow>
          (let t = \<lparr>tag_pk = fresh_pk (map tag_pk (tag_rows s)), tag_name = n\<rparr>
           in (Inr t, s\<lparr>tag_rows := tag_rows s @ [t]\<rparr>))
      | [t] \<Rightarrow> (Inr t, s)
      | _ \<Rightarrow> (Inl MultipleObjectsReturned, s))"

text \<open>
  The loop of \<^verbatim>\<open>_process_tags\<close>, with its two local variables \<^verbatim>\<open>tag_instances\<close> and
  \<^verbatim>\<open>processed_tag_names\<close>. A key counts as given when it is present and truthy (not 0).
  On an exception the store is returned as it is at that moment.
\<close>

fun process_tags_loop ::
  "store \<Rightarrow> tag_data list \<Rightarrow> Tag list \<Rightarrow> string set \<Rightarrow> (error + Tag list \<times> string set) \<times> store"
where
  "process_tags_loop s [] tag_instances processed = (Inr (tag_instances, processed), s)"
| "process_tags_loop s (td # tds) tag_instances processed =
     (case td_name td of
        None \<Rightarrow> process_tags_loop s tds tag_instances processed
      | Some tag_name' \<Rightarrow>
          if tag_name' \<in> processed then process_tags_loop s tds tag_instances processed
          else if (case td_pk td of Some p \<Rightarrow> p \<noteq> 0 | None \<Rightarrow> False) then
            (case get_tag s (the (td_pk td)) of
               Some tag \<Rightarrow>
                 process_tags_loop s tds (tag_instances @ [tag]) (insert tag_name' processed)
             | None \<Rightarrow>
                 (Inl (ValidationError [''tag_set''] (TagIdNotFound (the (td_pk td)))), s))
          else
            (case get_or_create s tag_name' of
               (Inr tag, s') \<Rightarrow>
                 process_tags_loop s' tds (tag_instances @ [tag]) (insert tag_name' processed)
             | (Inl e, s') \<Rightarrow> (Inl e, s')))"

text \<open>
  \<^verbatim>\<open>_process_tags\<close>: run the loop, then \<^verbatim>\<open>product.tag_set.set(tag_instances)\<close>
  replaces the product's association by the collected tags.
\<close>

definition process_tags :: "store \<Rightarrow> pk \<Rightarrow> tag_data list \<Rightarrow> (error + unit) \<times> store" where
  "process_tags s product tags_data =
     (case process_tags_loop s tags_data [] {} of
        (Inl e, s') \<Rightarrow> (Inl e, s')
      | (Inr (tag_instances, _), s') \<Rightarrow>
          (Inr (), s'\<lparr>tag_set_of := (tag_set_of s')(product := set (map tag_pk tag_instances))\<rparr>))"

text \<open>
  The specification's words for the de-duplication (section 4.2, steps 1 and 2): of the
  submitted entries, those without a name are skipped, and an entry is skipped when its
  name has been seen before in the call, so that the first occurrence of a name wins.
  \<open>names_of\<close> are the names that occur in a list of entries.
\<close>

definition names_of :: "tag_data list \<Rightarrow> string set" where
  "names_of tds = {n. Some n \<in> set (map td_name tds)}"

fun first_occurrences :: "string set \<Rightarrow> tag_data list \<Rightarrow> tag_data list" where
  "first_occurrences seen [] = []"
| "first_occurrences seen (td # tds) =
     (case td_name td of
        None \<Rightarrow> first_occurrences seen tds
      | Some n \<Rightarrow>
          if n \<in> seen then first_occurrences seen tds
          else td # first_occurrences (insert n seen) tds)"

section \<open>Option reconciliation and the parent serializer\<close>

text \<open>
  Modelled from the spec: the option reconciler of section 4.1, which in the repository
  is the nested write of the parent class \<^verbatim>\<open>WritableNestedModelSerializer\<close> over the
  models of \<^verbatim>\<open>models.py\<close>. An entry whose key matches an option the product owned
  before the call updates that row's name and price in place; any other entry creates a
  row owned by the product; an owned row whose key is not among the submitted keys is
  deleted.
\<close>

definition owned_pks :: "store \<Rightarrow> pk \<Rightarrow> pk list" where
  "owned_pks s p = map option_pk (filter (\<lambda>x. option_product x = p) (option_rows s))"

definition submitted_pks :: "option_spec list \<Rightarrow> pk list" where
  "submitted_pks specs = List.map_filter os_pk specs"

definition matches :: "pk list \<Rightarrow> option_spec \<Rightarrow> bool" where
  "matches old sp = (case os_pk sp of Some q \<Rightarrow> q \<in> set old | None \<Rightarrow> False)"

definition new_option :: "pk \<Rightarrow> ProductOption list \<Rightarrow> option_spec \<Rightarrow> ProductOption" where
  "new_option p rows sp =
     \<lparr>option_pk = fresh_pk (map option_pk rows), option_product = p,
      option_name = os_name sp, option_price = os_price sp\<rparr>"

definition upsert_option ::
  "pk \<Rightarrow> pk list \<Rightarrow> option_spec \<Rightarrow> ProductOption list \<Rightarrow> ProductOption list" where
  "upsert_option p old sp rows =
     (if matches old sp then
        map (\<lambda>x. if option_pk x = the (os_pk sp) \<and> option_product x = p
                  then x\<lparr>option_name := os_name sp, option_price := os_price sp\<rparr> else x) rows
      else rows @ [new_option p rows sp])"

definition reconcile_options :: "store \<Rightarrow> pk \<Rightarrow> option_spec list \<Rightarrow> store" where
  "reconcile_options s p specs =
     (let old = owned_pks s p;
          rows = fold (upsert_option p old) specs (option_rows s)
      in s\<lparr>option_rows :=
             filter (\<lambda>x. \<not> (option_product x = p \<and> option_pk x \<in> set old
                              \<and> option_pk x \<notin> set (submitted_pks specs))) rows\<rparr>)"

text \<open>
  What the diff makes of a row that was in the table before the call: a row the product
  owns whose key is among the submitted keys takes the name and the price of the last
  entry that bears this key; any other row is left as it is.
\<close>

definition last_spec :: "pk \<Rightarrow> option_spec list \<Rightarrow> option_spec" where
  "last_spec q specs = last (filter (\<lambda>sp. os_pk sp = Some q) specs)"

definition updated :: "pk \<Rightarrow> option_spec list \<Rightarrow> ProductOption \<Rightarrow> ProductOption" where
  "updated p specs x =
     (if option_product x = p \<and> option_pk x \<in> set (submitted_pks specs)
      then x\<lparr>option_name := os_name (last_spec (option_pk x) specs),
             option_price := os_price (last_spec (option_pk x) specs)\<rparr>
      else x)"

text \<open>
  Modelled from the spec: \<^verbatim>\<open>super().create\<close> and \<^verbatim>\<open>super().update\<close> of the parent
  class, called with the key \<^verbatim>\<open>tag_set\<close> already popped (section 4.3). Create persists
  a new product row and reconciles the submitted options, or none. Update changes the
  name only if it was submitted and reconciles the options only if the field
  \<^verbatim>\<open>option_set\<close> is present. Both return the product, here its key.
\<close>

definition super_create :: "store \<Rightarrow> product_data \<Rightarrow> pk \<times> store" where
  "super_create s pd =
     (let p = fresh_pk (map product_pk (product_rows s));
          row = \<lparr>product_pk = p, product_name = (case pd_name pd of Some n \<Rightarrow> n | None \<Rightarrow> [])\<rparr>;
          s1 = s\<lparr>product_rows := product_rows s @ [row]\<rparr>
      in (p, reconcile_options s1 p (case pd_option_set pd of Some sps \<Rightarrow> sps | None \<Rightarrow> [])))"

definition super_update :: "store \<Rightarrow> pk \<Rightarrow> product_data \<Rightarrow> pk \<times> store" where
  "super_update s instance pd =
     (let s1 = (case pd_name pd of
                  None \<Rightarrow> s
                | Some n \<Rightarrow>
                    s\<lparr>product_rows :=
                        map (\<lambda>r. if product_pk r = instance then r\<lparr>product_name := n\<rparr> else r)
                          (product_rows s)\<rparr>);
          s2 = (case pd_option_set pd of
                  None \<Rightarrow> s1
                | Some sps \<Rightarrow> reconcile_options s1 instance sps)
      in (instance, s2))"

section \<open>The product serializer\<close>

text \<open>
  \<^verbatim>\<open>ProductSerializer.create\<close>: pop \<^verbatim>\<open>tag_set\<close> with the default \<^verbatim>\<open>[]\<close>, let the
  parent create the product and its options, then process the tags.
\<close>

definition create :: "store \<Rightarrow> product_data \<Rightarrow> (error + pk) \<times> store" where
  "create s validated_data =
     (let tags_data = (case pd_tag_set validated_data of Some tds \<Rightarrow> tds | None \<Rightarrow> []);
          (product, s1) = super_create s (validated_data\<lparr>pd_tag_set := None\<rparr>)
      in case process_tags s1 product tags_data of
           (Inl e, s2) \<Rightarrow> (Inl e, s2)
         | (Inr _, s2) \<Rightarrow> (Inr product, s2))"

text \<open>
  \<^verbatim>\<open>ProductSerializer.update\<close>: pop \<^verbatim>\<open>tag_set\<close> with the default \<^verbatim>\<open>None\<close>, let the
  parent update the product and its options, and process the tags only if the popped
  value is not \<^verbatim>\<open>None\<close>.
\<close>

definition update :: "store \<Rightarrow> pk \<Rightarrow> product_data \<Rightarrow> (error + pk) \<times> store" where
  "update s instance validated_data =
     (let tags_data = pd_tag_set validated_data;
          (product, s1) = super_update s instance (validated_data\<lparr>pd_tag_set := None\<rparr>)
      in case tags_data of
           None \<Rightarrow> (Inr product, s1)
         | Some tds \<Rightarrow>
             (case process_tags s1 product tds of
                (Inl e, s2) \<Rightarrow> (Inl e, s2)
              | (Inr _, s2) \<Rightarrow> (Inr product, s2)))"

section \<open>The views\<close>

text \<open>
  Modelled from the spec: the transactional execution that the framework provides for a
  request (sections 1 and 5): a create or update that ends in an error leaves the store
  as it was before the request.
\<close>

definition atomic :: "store \<Rightarrow> (error + 'a) \<times> store \<Rightarrow> (error + 'a) \<times> store" where
  "atomic s r = (case r of (Inl e, _) \<Rightarrow> (Inl e, s) | (Inr v, s') \<Rightarrow> (Inr v, s'))"

definition product_exists :: "store \<Rightarrow> pk \<Rightarrow> bool" where
  "product_exists s p = (p \<in> set (map product_pk (product_rows s)))"

text \<open>
  Modelled from the spec: \<^verbatim>\<open>ProductViewSet.create\<close> and \<^verbatim>\<open>partial_update\<close> only
  delegate to the generic views of the framework (section 4.3): validate the payload,
  then save through the serializer, as one transaction; an update answers 404 when the
  product does not exist.
\<close>

definition ProductViewSet_create ::
  "name_field \<Rightarrow> store \<Rightarrow> product_data \<Rightarrow> (error + pk) \<times> store" where
  "ProductViewSet_create name_field s pd =
     (case run_validation name_field pd of
        Inl e \<Rightarrow> (Inl e, s)
      | Inr validated_data \<Rightarrow> atomic s (create s validated_data))"

definition ProductViewSet_partial_update ::
  "name_field \<Rightarrow> store \<Rightarrow> pk \<Rightarrow> product_data \<Rightarrow> (error + pk) \<times> store" where
  "ProductViewSet_partial_update name_field s p pd =
     (if \<not> product_exists s p then (Inl NotFound, s)
      else case run_validation name_field pd of
             Inl e \<Rightarrow> (Inl e, s)
           | Inr validated_data \<Rightarrow> atomic s (update s p validated_data))"

text \<open>
  \<^verbatim>\<open>product.option_set\<close>: the option rows of a product, which its representation
  lists under \<^verbatim>\<open>option_set\<close>.
\<close>

definition option_set_of :: "store \<Rightarrow> pk \<Rightarrow> ProductOption list" where
  "option_set_of s p = filter (\<lambda>x. option_product x = p) (option_rows s)"

text \<open>
  Modelled from the spec: \<^verbatim>\<open>ProductViewSet.destroy\<close> delegates to the generic view,
  which deletes the product through the models of \<^verbatim>\<open>models.py\<close> (section 4.3,
  Delete): the product row goes, the options it owns go with it, its association rows
  go, and the tag table is not touched.
\<close>

definition ProductViewSet_destroy :: "store \<Rightarrow> pk \<Rightarrow> (error + unit) \<times> store" where
  "ProductViewSet_destroy s p =
     (if \<not> product_exists s p then (Inl NotFound, s)
      else (Inr (),
            s\<lparr>product_rows := filter (\<lambda>r. product_pk r \<noteq> p) (product_rows s),
              option_rows := filter (\<lambda>x. option_product x \<noteq> p) (option_rows s),
              tag_set_of := (tag_set_of s)(p := {})\<rparr>))"

section \<open>Example stores\<close>

text \<open>
  The empty store, the store that every test of \<^verbatim>\<open>tests.py\<close> starts from (the tags
  ExistTag and AnotherExistTag), and the store that the update tests set up: a third tag
  NewTag, and the product TestProduct with three options and the tags ExistTag and
  NewTag.
\<close>

definition empty_store :: store where
  "empty_store = \<lparr>tag_rows = [], product_rows = [], option_rows = [], tag_set_of = (\<lambda>_. {})\<rparr>"

definition base_store :: store where
  "base_store =
     \<lparr>tag_rows = [\<lparr>tag_pk = 1, tag_name = ''ExistTag''\<rparr>,
                  \<lparr>tag_pk = 2, tag_name = ''AnotherExistTag''\<rparr>],
      product_rows = [], option_rows = [], tag_set_of = (\<lambda>_. {})\<rparr>"

definition test_store :: store where
  "test_store =
     \<lparr>tag_rows = [\<lparr>tag_pk = 1, tag_name = ''ExistTag''\<rparr>,
                  \<lparr>tag_pk = 2, tag_name = ''AnotherExistTag''\<rparr>,
                  \<lparr>tag_pk = 3, tag_name = ''NewTag''\<rparr>],
      product_rows = [\<lparr>product_pk = 1, product_name = ''TestProduct''\<rparr>],
      option_rows =
        [\<lparr>option_pk = 1, option_product = 1, option_name = ''TestOption1'', option_price = 1000\<rparr>,
         \<lparr>option_pk = 2, option_product = 1, option_name = ''TestOption2'', option_price = 500\<rparr>,
         \<lparr>option_pk = 3, option_product = 1, option_name = ''TestOption3'', option_price = 0\<rparr>],
      tag_set_of = (\<lambda>_. {})(1 := {1, 3})\<rparr>"

section \<open>Validation of option names\<close>

lemma strip_decomp:
  "\<exists>l r. v = l @ strip v @ r \<and> (\<forall>c\<in>set l. is_space c) \<and> (\<forall>c\<in>set r. is_space c)"
proof -
  let ?l = "takeWhile is_space v"
  let ?m = "dropWhile is_space v"
  let ?r = "rev (takeWhile is_space (rev ?m))"
  have "rev ?m = takeWhile is_space (rev ?m) @ dropWhile is_space (rev ?m)"
    by simp
  then have "?m = rev (dropWhile is_space (rev ?m)) @ ?r"
    by (metis rev_append rev_rev_ident)
  then have m: "?m = strip v @ ?r"
    by (simp add: strip_def)
  have "v = ?l @ ?m" by simp
  with m have "v = ?l @ strip v @ ?r" by simp
  moreover have "\<forall>c\<in>set ?l. is_space c"
    by (meson set_takeWhileD)
  moreover have "\<forall>c\<in>set ?r. is_space c"
    by (metis set_rev set_takeWhileD)
  ultimately show ?thesis by blast
qed

lemma strip_hd: "strip v \<noteq> [] \<Longrightarrow> \<not> is_space (hd (strip v))"
proof -
  assume ne: "strip v \<noteq> []"
  let ?m = "dropWhile is_space v"
  have mne: "?m \<noteq> []"
  proof
    assume "?m = []"
    then have "strip v = []" by (simp add: strip_def del: dropWhile_eq_Nil_conv)
    with ne show False by simp
  qed
  then have h: "\<not> is_space (hd ?m)" by (rule hd_dropWhile)
  obtain r where "?m = strip v @ r"
    by (metis (no_types) strip_def append_take_drop_id rev_append rev_rev_ident takeWhile_dropWhile_id)
  with ne have "hd ?m = hd (strip v)" by (metis hd_append2)
  with h show ?thesis by simp
qed

lemma strip_last: "strip v \<noteq> [] \<Longrightarrow> \<not> is_space (last (strip v))"
proof -
  assume ne: "strip v \<noteq> []"
  let ?k = "dropWhile is_space (rev (dropWhile is_space v))"
  have kne: "?k \<noteq> []" using ne by (simp add: strip_def)
  then have "\<not> is_space (hd ?k)" by (rule hd_dropWhile)
  moreover have "last (strip v) = hd ?k" using kne by (simp add: strip_def last_rev)
  ultimately show ?thesis by simp
qed

lemma strip_empty_iff: "strip v = [] \<longleftrightarrow> (\<forall>c\<in>set v. is_space c)"
proof
  assume "strip v = []"
  with strip_decomp [of v] show "\<forall>c\<in>set v. is_space c" by auto
next
  assume "\<forall>c\<in>set v. is_space c"
  then have "dropWhile is_space v = []" by (simp only: dropWhile_eq_Nil_conv)
  then show "strip v = []" by (simp add: strip_def del: dropWhile_eq_Nil_conv)
qed


lemma validate_name_eq:
  "validate_name v =
     (if strip v = [] then Inl (ValidationError [] OptionNameRequired) else Inr (strip v))"
  by (auto simp: validate_name_def strip_def)

lemma validate_option_eq:
  "validate_option sp =
     (if strip (os_name sp) = []
      then Inl (ValidationError [''option_set'', ''name''] OptionNameRequired)
      else Inr (sp\<lparr>os_name := strip (os_name sp)\<rparr>))"
  by (simp add: validate_option_def validate_name_eq)

lemma validate_options_eq:
  "validate_options sps =
     (if \<exists>sp\<in>set sps. strip (os_name sp) = []
      then Inl (ValidationError [''option_set'', ''name''] OptionNameRequired)
      else Inr (map (\<lambda>sp. sp\<lparr>os_name := strip (os_name sp)\<rparr>) sps))"
  by (induction sps) (simp_all add: validate_option_eq)

section \<open>Properties of tag reconciliation\<close>

lemma get_or_create_frame:
  "get_or_create s n = (r, s') \<Longrightarrow>
     product_rows s' = product_rows s \<and> option_rows s' = option_rows s
     \<and> tag_set_of s' = tag_set_of s \<and> (\<exists>new. tag_rows s' = tag_rows s @ new)"
  by (auto simp: get_or_create_def Let_def split: list.splits)



lemma process_tags_loop_frame:
  "process_tags_loop s tds insts seen = (r, s') \<Longrightarrow>
     product_rows s' = product_rows s \<and> option_rows s' = option_rows s
     \<and> tag_set_of s' = tag_set_of s \<and> (\<exists>new. tag_rows s' = tag_rows s @ new)"
proof (induction tds arbitrary: s insts seen)
  case Nil
  then show ?case by simp
next
  case (Cons td tds)
  show ?case
  proof (cases "td_name td")
    case None
    with Cons.prems have "process_tags_loop s tds insts seen = (r, s')" by simp
    then show ?thesis by (rule Cons.IH)
  next
    case (Some n)
    show ?thesis
    proof (cases "n \<in> seen")
      case True
      with Cons.prems Some have "process_tags_loop s tds insts seen = (r, s')" by simp
      then show ?thesis by (rule Cons.IH)
    next
      case False
      show ?thesis
      proof (cases "case td_pk td of Some p \<Rightarrow> p \<noteq> 0 | None \<Rightarrow> False")
        case True
        show ?thesis
        proof (cases "get_tag s (the (td_pk td))")
          case None
          with Cons.prems Some False True have "s' = s" by simp
          then show ?thesis by simp
        next
          case (Some t)
          with Cons.prems \<open>td_name td = Some n\<close> False True
          have "process_tags_loop s tds (insts @ [t]) (insert n seen) = (r, s')" by simp
          then show ?thesis by (rule Cons.IH)
        qed
      next
        case nopk: False
        obtain g s_at where g: "get_or_create s n = (g, s_at)" by (cases "get_or_create s n")
        note fr = get_or_create_frame [OF g]
        show ?thesis
        proof (cases g)
          case (Inl e)
          with Cons.prems Some False nopk g have "s' = s_at" by simp
          with fr show ?thesis by simp
        next
          case (Inr t)
          with Cons.prems Some False nopk g
          have "process_tags_loop s_at tds (insts @ [t]) (insert n seen) = (r, s')" by simp
          then have "product_rows s' = product_rows s_at \<and> option_rows s' = option_rows s_at
             \<and> tag_set_of s' = tag_set_of s_at \<and> (\<exists>new. tag_rows s' = tag_rows s_at @ new)"
            by (rule Cons.IH)
          with fr show ?thesis by auto
        qed
      qed
    qed
  qed
qed

lemma process_tags_loop_append:
  "process_tags_loop s (xs @ ys) insts seen =
     (case process_tags_loop s xs insts seen of
        (Inl e, s') \<Rightarrow> (Inl e, s')
      | (Inr (insts', seen'), s') \<Rightarrow> process_tags_loop s' ys insts' seen')"
proof (induction xs arbitrary: s insts seen)
  case Nil
  show ?case by simp
next
  case (Cons td xs)
  show ?case
  proof (cases "td_name td")
    case None
    with Cons show ?thesis by simp
  next
    case (Some n)
    show ?thesis
    proof (cases "n \<in> seen")
      case True
      with Cons Some show ?thesis by simp
    next
      case False
      show ?thesis
      proof (cases "case td_pk td of Some p \<Rightarrow> p \<noteq> 0 | None \<Rightarrow> False")
        case True
        with Cons Some False show ?thesis
          by (cases "get_tag s (the (td_pk td))") simp_all
      next
        case nopk: False
        obtain g s_at where g: "get_or_create s n = (g, s_at)" by (cases "get_or_create s n")
        with Cons Some False nopk show ?thesis
          by (cases g) simp_all
      qed
    qed
  qed
qed


lemma process_tags_loop_mono:
  "process_tags_loop s tds insts seen = (Inr (insts', seen'), s') \<Longrightarrow>
     (\<exists>more. insts' = insts @ more) \<and> seen \<subseteq> seen'"
proof (induction tds arbitrary: s insts seen)
  case Nil
  then show ?case by simp
next
  case (Cons td tds)
  show ?case
  proof (cases "td_name td")
    case None
    with Cons.prems have "process_tags_loop s tds insts seen = (Inr (insts', seen'), s')" by simp
    then show ?thesis by (rule Cons.IH)
  next
    case (Some n)
    show ?thesis
    proof (cases "n \<in> seen")
      case True
      with Cons.prems Some
      have "process_tags_loop s tds insts seen = (Inr (insts', seen'), s')" by simp
      then show ?thesis by (rule Cons.IH)
    next
      case False
      show ?thesis
      proof (cases "case td_pk td of Some p \<Rightarrow> p \<noteq> 0 | None \<Rightarrow> False")
        case True
        show ?thesis
        proof (cases "get_tag s (the (td_pk td))")
          case None
          with Cons.prems Some False True show ?thesis by simp
        next
          case (Some t)
          with Cons.prems \<open>td_name td = Some n\<close> False True
          have "process_tags_loop s tds (insts @ [t]) (insert n seen) = (Inr (insts', seen'), s')"
            by simp
          then have "(\<exists>more. insts' = (insts @ [t]) @ more) \<and> insert n seen \<subseteq> seen'"
            by (rule Cons.IH)
          then show ?thesis by auto
        qed
      next
        case nopk: False
        obtain g s_at where g: "get_or_create s n = (g, s_at)" by (cases "get_or_create s n")
        show ?thesis
        proof (cases g)
          case (Inl e)
          with Cons.prems Some False nopk g show ?thesis by simp
        next
          case (Inr t)
          with Cons.prems Some False nopk g
          have "process_tags_loop s_at tds (insts @ [t]) (insert n seen) = (Inr (insts', seen'), s')"
            by simp
          then have "(\<exists>more. insts' = (insts @ [t]) @ more) \<and> insert n seen \<subseteq> seen'"
            by (rule Cons.IH)
          then show ?thesis by auto
        qed
      qed
    qed
  qed
qed

lemma process_tags_loop_given_pk:
  assumes "td_name td = Some n" and "n \<notin> seen" and "td_pk td = Some p" and "p \<noteq> 0"
  shows "process_tags_loop s (td # tds) insts seen =
     (case get_tag s p of
        Some t \<Rightarrow> process_tags_loop s tds (insts @ [t]) (insert n seen)
      | None \<Rightarrow> (Inl (ValidationError [''tag_set''] (TagIdNotFound p)), s))"
  using assms by (simp split: option.split)

lemma get_tag_pk: "get_tag s p = Some t \<Longrightarrow> tag_pk t = p"
  by (auto simp: get_tag_def find_Some_iff)

lemma find_Some_append: "find P xs = Some t \<Longrightarrow> find P (xs @ ys) = Some t"
  by (induction xs) auto

lemma get_tag_append:
  "get_tag s p = Some t \<Longrightarrow> tag_rows s' = tag_rows s @ new \<Longrightarrow> get_tag s' p = Some t"
  by (simp add: get_tag_def find_Some_append)


lemma reconcile_options_frame:
  "tag_rows (reconcile_options s p specs) = tag_rows s"
  "product_rows (reconcile_options s p specs) = product_rows s"
  "tag_set_of (reconcile_options s p specs) = tag_set_of s"
  by (simp_all add: reconcile_options_def Let_def)

lemma super_create_frame:
  "tag_rows (snd (super_create s pd)) = tag_rows s"
  "tag_set_of (snd (super_create s pd)) = tag_set_of s"
  by (simp_all add: super_create_def Let_def reconcile_options_frame)

lemma super_update_frame:
  "tag_rows (snd (super_update s i pd)) = tag_rows s"
  "tag_set_of (snd (super_update s i pd)) = tag_set_of s"
  "fst (super_update s i pd) = i"
  by (simp_all add: super_update_def Let_def reconcile_options_frame split: option.split)

lemma create_eq:
  "super_create s_req (vd\<lparr>pd_tag_set := None\<rparr>) = (product, s) \<Longrightarrow>
   create s_req vd =
     (case process_tags s product (case pd_tag_set vd of Some tds \<Rightarrow> tds | None \<Rightarrow> []) of
        (Inl e, s2) \<Rightarrow> (Inl e, s2)
      | (Inr _, s2) \<Rightarrow> (Inr product, s2))"
  by (simp add: create_def Let_def)

lemma update_eq:
  "super_update s_req i (vd\<lparr>pd_tag_set := None\<rparr>) = (product, s) \<Longrightarrow>
   update s_req i vd =
     (case pd_tag_set vd of
        None \<Rightarrow> (Inr product, s)
      | Some tds \<Rightarrow>
          (case process_tags s product tds of
             (Inl e, s2) \<Rightarrow> (Inl e, s2)
           | (Inr _, s2) \<Rightarrow> (Inr product, s2)))"
  by (simp add: update_def Let_def)

lemma process_tags_reaches_pk:
  assumes pre: "process_tags_loop s pre [] {} = (Inr (insts, seen), s_at)"
    and td: "td_name td = Some n" "n \<notin> seen" "td_pk td = Some p" "p \<noteq> 0"
  shows "process_tags_loop s (pre @ td # post) [] {} =
     (case get_tag s_at p of
        Some t \<Rightarrow> process_tags_loop s_at post (insts @ [t]) (insert n seen)
      | None \<Rightarrow> (Inl (ValidationError [''tag_set''] (TagIdNotFound p)), s_at))"
  by (simp only: process_tags_loop_append pre prod.case sum.case
      process_tags_loop_given_pk [OF td])

lemma process_tags_found:
  assumes pre: "process_tags_loop s pre [] {} = (Inr (insts, seen), s_at)"
    and td: "td_name td = Some n" "n \<notin> seen" "td_pk td = Some p" "p \<noteq> 0"
    and t: "get_tag s_at p = Some t"
    and ok: "process_tags s product (pre @ td # post) = (Inr (), s')"
  shows "p \<in> tag_set_of s' product \<and> get_tag s' p = Some t"
proof -
  obtain r s2 where l: "process_tags_loop s_at post (insts @ [t]) (insert n seen) = (r, s2)"
    by (cases "process_tags_loop s_at post (insts @ [t]) (insert n seen)")
  with t have whole: "process_tags_loop s (pre @ td # post) [] {} = (r, s2)"
    by (simp add: process_tags_reaches_pk [OF pre td])
  show ?thesis
  proof (cases r)
    case (Inl e)
    with ok whole show ?thesis by (simp add: process_tags_def)
  next
    case (Inr res)
    obtain insts' seen' where res: "res = (insts', seen')" by (cases res)
    from process_tags_loop_mono [of s_at post "insts @ [t]" "insert n seen" insts' seen' s2]
      l Inr res
    obtain more where "insts' = (insts @ [t]) @ more" by auto
    then have "tag_pk t \<in> set (map tag_pk insts')" by simp
    moreover have s': "s' = s2\<lparr>tag_set_of := (tag_set_of s2)(product := set (map tag_pk insts'))\<rparr>"
      using ok whole Inr res by (auto simp: process_tags_def)
    ultimately have "p \<in> tag_set_of s' product" using get_tag_pk [OF t] by simp
    moreover from process_tags_loop_frame [OF l] obtain new where "tag_rows s2 = tag_rows s_at @ new"
      by blast
    then have "tag_rows s' = tag_rows s_at @ new" using s' by simp
    then have "get_tag s' p = Some t" by (rule get_tag_append [OF t])
    ultimately show ?thesis by simp
  qed
qed

text \<open>
  Claim C1, as amended. Let the loop of \<^verbatim>\<open>_process_tags\<close> have processed the entries
  \<open>pre\<close> without an error, and let the next entry \<open>td\<close> be one that is processed: it
  has a name that was not seen before in the call, and a non-empty (truthy) key \<open>p\<close>.
  If no tag has the key \<open>p\<close>, tag reconciliation, and with it create and update,
  fails with the validation error keyed on \<^verbatim>\<open>tag_set\<close> whose message carries \<open>p\<close>,
  and no tag association has been changed. If a tag has the key \<open>p\<close>, that tag is
  appended to the collected tags, and when the reconciliation completes it is associated
  with the product.
\<close>

theorem missing_tag_pk_fails:
  assumes pre: "process_tags_loop s pre [] {} = (Inr (insts, seen), s_at)"
    and td: "td_name td = Some n" "n \<notin> seen" "td_pk td = Some p" "p \<noteq> 0"
    and vd: "pd_tag_set vd = Some (pre @ td # post)"
  shows
    "(get_tag s_at p = None \<longrightarrow>
        process_tags s product (pre @ td # post)
          = (Inl (ValidationError [''tag_set''] (TagIdNotFound p)), s_at)
        \<and> tag_set_of s_at = tag_set_of s
        \<and> (super_create s_req (vd\<lparr>pd_tag_set := None\<rparr>) = (product, s) \<longrightarrow>
             create s_req vd = (Inl (ValidationError [''tag_set''] (TagIdNotFound p)), s_at)
             \<and> tag_set_of s_at = tag_set_of s_req)
        \<and> (super_update s_req inst (vd\<lparr>pd_tag_set := None\<rparr>) = (product, s) \<longrightarrow>
             update s_req inst vd = (Inl (ValidationError [''tag_set''] (TagIdNotFound p)), s_at)
             \<and> tag_set_of s_at = tag_set_of s_req))
     \<and> (\<forall>t. get_tag s_at p = Some t \<longrightarrow>
          process_tags_loop s (pre @ [td]) [] {} = (Inr (insts @ [t], insert n seen), s_at)
          \<and> (\<forall>s'. process_tags s product (pre @ td # post) = (Inr (), s') \<longrightarrow>
                p \<in> tag_set_of s' product))"
proof -
  note fr = process_tags_loop_frame [OF pre]
  have missing: "process_tags s product (pre @ td # post)
      = (Inl (ValidationError [''tag_set''] (TagIdNotFound p)), s_at)" if "get_tag s_at p = None"
    using that by (simp add: process_tags_def process_tags_reaches_pk [OF pre td])
  have cr: "create s_req vd = (Inl (ValidationError [''tag_set''] (TagIdNotFound p)), s_at)
      \<and> tag_set_of s_at = tag_set_of s_req"
    if "get_tag s_at p = None" "super_create s_req (vd\<lparr>pd_tag_set := None\<rparr>) = (product, s)"
  proof -
    have "tag_set_of s = tag_set_of s_req"
      using super_create_frame(2) [of s_req "vd\<lparr>pd_tag_set := None\<rparr>"] that(2) by simp
    with fr missing [OF that(1)] show ?thesis
      by (simp add: create_eq [OF that(2)] vd)
  qed
  have up: "update s_req inst vd = (Inl (ValidationError [''tag_set''] (TagIdNotFound p)), s_at)
      \<and> tag_set_of s_at = tag_set_of s_req"
    if "get_tag s_at p = None" "super_update s_req inst (vd\<lparr>pd_tag_set := None\<rparr>) = (product, s)"
  proof -
    have "tag_set_of s = tag_set_of s_req"
      using super_update_frame(2) [of s_req inst "vd\<lparr>pd_tag_set := None\<rparr>"] that(2) by simp
    with fr missing [OF that(1)] show ?thesis
      by (simp add: update_eq [OF that(2)] vd)
  qed
  have found1: "process_tags_loop s (pre @ [td]) [] {} = (Inr (insts @ [t], insert n seen), s_at)"
    if "get_tag s_at p = Some t" for t
    using that process_tags_reaches_pk [OF pre td, of "[]"] by simp
  have found2: "p \<in> tag_set_of s' product"
    if t: "get_tag s_at p = Some t"
      and ok: "process_tags s product (pre @ td # post) = (Inr (), s')" for t s'
    using process_tags_found [OF pre td t ok] by simp
  show ?thesis
    using missing cr up found1 found2 fr by blast
qed


lemmas store_evals =
  empty_store_def base_store_def test_store_def get_tag_def get_or_create_def fresh_pk_def
  process_tags_def create_def update_def super_create_def super_update_def
  reconcile_options_def owned_pks_def submitted_pks_def upsert_option_def new_option_def
  matches_def List.map_filter_def Let_def

theorem missing_tag_pk_fails_witness:
  "fst (create base_store
         \<lparr>pd_name = Some ''InvalidTagProduct'',
          pd_option_set = Some [\<lparr>os_pk = None, os_name = ''Option1'', os_price = 1000\<rparr>],
          pd_tag_set = Some [\<lparr>td_pk = Some 99999, td_name = Some ''NonExistentTag''\<rparr>]\<rparr>)
     = Inl (ValidationError [''tag_set''] (TagIdNotFound 99999))
   \<and> tag_set_of (snd (create base_store
         \<lparr>pd_name = Some ''InvalidTagProduct'',
          pd_option_set = Some [\<lparr>os_pk = None, os_name = ''Option1'', os_price = 1000\<rparr>],
          pd_tag_set = Some [\<lparr>td_pk = Some 99999, td_name = Some ''NonExistentTag''\<rparr>]\<rparr>))
     = tag_set_of base_store
   \<and> product_rows (snd (create base_store
         \<lparr>pd_name = Some ''InvalidTagProduct'',
          pd_option_set = Some [\<lparr>os_pk = None, os_name = ''Option1'', os_price = 1000\<rparr>],
          pd_tag_set = Some [\<lparr>td_pk = Some 99999, td_name = Some ''NonExistentTag''\<rparr>]\<rparr>))
     = [\<lparr>product_pk = 1, product_name = ''InvalidTagProduct''\<rparr>]"
proof -
  let ?td = "\<lparr>td_pk = Some 99999, td_name = Some ''NonExistentTag''\<rparr>"
  let ?vd = "\<lparr>pd_name = Some ''InvalidTagProduct'',
          pd_option_set = Some [\<lparr>os_pk = None, os_name = ''Option1'', os_price = 1000\<rparr>],
          pd_tag_set = Some [?td]\<rparr>"
  define s where "s = snd (super_create base_store (?vd\<lparr>pd_tag_set := None\<rparr>))"
  have sc: "super_create base_store (?vd\<lparr>pd_tag_set := None\<rparr>) = (1, s)"
    by (simp add: s_def store_evals)
  have h1: "process_tags_loop s [] [] {} = (Inr ([], {}), s)" by simp
  have h2: "td_name ?td = Some ''NonExistentTag''" by simp
  have h3: "''NonExistentTag'' \<notin> {}" by simp
  have h4: "td_pk ?td = Some 99999" by simp
  have h5: "(99999::int) \<noteq> 0" by simp
  have h6: "pd_tag_set ?vd = Some ([] @ ?td # [])" by simp
  have none: "get_tag s 99999 = None"
    by (simp add: s_def store_evals)
  have pr: "product_rows s = [\<lparr>product_pk = 1, product_name = ''InvalidTagProduct''\<rparr>]"
    by (simp add: s_def store_evals)
  from missing_tag_pk_fails [OF h1 h2 h3 h4 h5 h6, of 1 base_store 0] none sc
  have "create base_store ?vd = (Inl (ValidationError [''tag_set''] (TagIdNotFound 99999)), s)
      \<and> tag_set_of s = tag_set_of base_store"
    by blast
  with pr show ?thesis by simp
qed

text \<open>
  Claim C1 as stated fails: an entry with a key that matches no tag is skipped when its
  name was seen before, and the operation succeeds. No tag has the key 999, the second
  entry carries it, and create returns the new product with the tag created for the
  first entry.
\<close>

theorem missing_tag_pk_skipped_counterexample:
  "get_tag empty_store 999 = None
   \<and> fst (create empty_store
        \<lparr>pd_name = Some ''P'', pd_option_set = None,
         pd_tag_set = Some [\<lparr>td_pk = None, td_name = Some ''A''\<rparr>,
                            \<lparr>td_pk = Some 999, td_name = Some ''A''\<rparr>]\<rparr>) = Inr 1
   \<and> tag_set_of (snd (create empty_store
        \<lparr>pd_name = Some ''P'', pd_option_set = None,
         pd_tag_set = Some [\<lparr>td_pk = None, td_name = Some ''A''\<rparr>,
                            \<lparr>td_pk = Some 999, td_name = Some ''A''\<rparr>]\<rparr>)) 1 = {1}"
  by (simp add: store_evals)


lemma names_of_simps:
  "names_of [] = {}"
  "names_of (td # tds) = (case td_name td of None \<Rightarrow> names_of tds | Some n \<Rightarrow> insert n (names_of tds))"
  by (auto simp: names_of_def split: option.splits)

lemma first_occurrences_append:
  "first_occurrences seen (xs @ ys)
     = first_occurrences seen xs @ first_occurrences (seen \<union> names_of xs) ys"
proof (induction xs arbitrary: seen)
  case Nil
  show ?case by (simp add: names_of_simps)
next
  case (Cons td xs)
  show ?case
  proof (cases "td_name td")
    case None
    then show ?thesis by (simp add: names_of_simps Cons.IH)
  next
    case (Some n)
    show ?thesis
    proof (cases "n \<in> seen")
      case True
      then have "seen \<union> insert n (names_of xs) = seen \<union> names_of xs" by auto
      with True Some show ?thesis by (simp add: names_of_simps Cons.IH)
    next
      case False
      have "insert n seen \<union> names_of xs = seen \<union> insert n (names_of xs)" by auto
      with False Some show ?thesis by (simp add: names_of_simps Cons.IH)
    qed
  qed
qed

lemma process_tags_loop_first_occurrences:
  "process_tags_loop s tds insts seen
     = process_tags_loop s (first_occurrences seen tds) insts seen"
proof (induction tds arbitrary: s insts seen)
  case Nil
  show ?case by simp
next
  case (Cons td tds)
  show ?case
  proof (cases "td_name td")
    case None
    then show ?thesis by (simp add: Cons.IH [symmetric])
  next
    case (Some n)
    show ?thesis
    proof (cases "n \<in> seen")
      case True
      with Some show ?thesis by (simp add: Cons.IH [symmetric])
    next
      case False
      show ?thesis
      proof (cases "case td_pk td of Some p \<Rightarrow> p \<noteq> 0 | None \<Rightarrow> False")
        case True
        with Some False show ?thesis
          by (cases "get_tag s (the (td_pk td))") (simp_all add: Cons.IH [symmetric])
      next
        case nopk: False
        obtain g s1 where g: "get_or_create s n = (g, s1)" by (cases "get_or_create s n")
        with Some False nopk show ?thesis
          by (cases g) (simp_all add: Cons.IH [symmetric])
      qed
    qed
  qed
qed

lemma process_tags_loop_count:
  "process_tags_loop s tds insts seen = (Inr (insts', seen'), s') \<Longrightarrow>
     length insts' = length insts + length (first_occurrences seen tds)
     \<and> seen' = seen \<union> names_of tds"
proof (induction tds arbitrary: s insts seen)
  case Nil
  then show ?case by (simp add: names_of_simps)
next
  case (Cons td tds)
  show ?case
  proof (cases "td_name td")
    case None
    with Cons.prems have "process_tags_loop s tds insts seen = (Inr (insts', seen'), s')" by simp
    from Cons.IH [OF this] None show ?thesis by (simp add: names_of_simps)
  next
    case (Some n)
    show ?thesis
    proof (cases "n \<in> seen")
      case True
      with Cons.prems Some
      have "process_tags_loop s tds insts seen = (Inr (insts', seen'), s')" by simp
      from Cons.IH [OF this] Some True show ?thesis by (auto simp: names_of_simps)
    next
      case False
      show ?thesis
      proof (cases "case td_pk td of Some p \<Rightarrow> p \<noteq> 0 | None \<Rightarrow> False")
        case True
        show ?thesis
        proof (cases "get_tag s (the (td_pk td))")
          case None
          with Cons.prems Some False True show ?thesis by simp
        next
          case (Some t)
          with Cons.prems \<open>td_name td = Some n\<close> False True
          have "process_tags_loop s tds (insts @ [t]) (insert n seen) = (Inr (insts', seen'), s')"
            by simp
          from Cons.IH [OF this] \<open>td_name td = Some n\<close> False show ?thesis
            by (auto simp: names_of_simps)
        qed
      next
        case nopk: False
        obtain g s1 where g: "get_or_create s n = (g, s1)" by (cases "get_or_create s n")
        show ?thesis
        proof (cases g)
          case (Inl e)
          with Cons.prems Some False nopk g show ?thesis by simp
        next
          case (Inr t)
          with Cons.prems Some False nopk g
          have "process_tags_loop s1 tds (insts @ [t]) (insert n seen) = (Inr (insts', seen'), s')"
            by simp
          from Cons.IH [OF this] Some False show ?thesis
            by (auto simp: names_of_simps)
        qed
      qed
    qed
  qed
qed

lemma first_occurrences_same_name:
  "\<forall>td\<in>set tds. td_name td = Some n \<Longrightarrow>
     first_occurrences (insert n seen) tds = []"
  by (induction tds) simp_all

lemma get_or_create_new:
  "n \<notin> tag_name ` set (tag_rows s) \<Longrightarrow>
   get_or_create s n =
     (Inr \<lparr>tag_pk = fresh_pk (map tag_pk (tag_rows s)), tag_name = n\<rparr>,
      s\<lparr>tag_rows := tag_rows s @ [\<lparr>tag_pk = fresh_pk (map tag_pk (tag_rows s)), tag_name = n\<rparr>]\<rparr>)"
proof -
  assume "n \<notin> tag_name ` set (tag_rows s)"
  then have "filter (\<lambda>t. tag_name t = n) (tag_rows s) = []"
    by (auto simp: filter_empty_conv)
  then show ?thesis by (simp add: get_or_create_def Let_def)
qed

lemma process_tags_same_new_name:
  assumes all: "\<forall>td\<in>set (td1 # tds). td_name td = Some n"
    and nopk: "td_pk td1 = None \<or> td_pk td1 = Some 0"
    and new: "n \<notin> tag_name ` set (tag_rows s)"
  shows "process_tags s product (td1 # tds) =
     (Inr (),
      s\<lparr>tag_rows := tag_rows s @ [\<lparr>tag_pk = fresh_pk (map tag_pk (tag_rows s)), tag_name = n\<rparr>],
        tag_set_of := (tag_set_of s)(product := {fresh_pk (map tag_pk (tag_rows s))})\<rparr>)"
proof -
  have fo: "first_occurrences {} (td1 # tds) = [td1]"
    using all first_occurrences_same_name [of tds n "{}"] by simp
  have falsy: "\<not> (case td_pk td1 of Some p \<Rightarrow> p \<noteq> 0 | None \<Rightarrow> False)"
    using nopk by auto
  have n1: "td_name td1 = Some n" using all by simp
  have "process_tags_loop s (td1 # tds) [] {} = process_tags_loop s [td1] [] {}"
    using process_tags_loop_first_occurrences [of s "td1 # tds" "[]" "{}"] fo by simp
  also have "\<dots> = (Inr ([\<lparr>tag_pk = fresh_pk (map tag_pk (tag_rows s)), tag_name = n\<rparr>], {n}),
      s\<lparr>tag_rows := tag_rows s @ [\<lparr>tag_pk = fresh_pk (map tag_pk (tag_rows s)), tag_name = n\<rparr>]\<rparr>)"
    using falsy n1 by (simp add: get_or_create_new [OF new])
  finally show ?thesis by (simp add: process_tags_def)
qed


text \<open>
  Claim C5. Tag entries are processed in the submitted order and de-duplicated by name:
  the loop over the entries is the loop over their first occurrences; an entry appended
  to a list is kept exactly when it has a name that is neither seen nor borne by an
  earlier entry; a successful run collects one tag per first occurrence and has seen
  exactly the submitted names; and entries that all bear one new name create exactly one
  Tag row.
\<close>

theorem tags_deduplicated_by_name:
  "process_tags_loop s tds insts seen
     = process_tags_loop s (first_occurrences seen tds) insts seen
   \<and> first_occurrences seen (tds @ [td])
     = first_occurrences seen tds
       @ (case td_name td of
            None \<Rightarrow> []
          | Some n \<Rightarrow> if n \<in> seen \<or> n \<in> names_of tds then [] else [td])
   \<and> (\<forall>insts' seen' s'.
         process_tags_loop s tds insts seen = (Inr (insts', seen'), s') \<longrightarrow>
           length insts' = length insts + length (first_occurrences seen tds)
           \<and> seen' = seen \<union> names_of tds)
   \<and> ((\<forall>x\<in>set (td1 # rest). td_name x = Some m)
        \<and> (td_pk td1 = None \<or> td_pk td1 = Some 0)
        \<and> m \<notin> tag_name ` set (tag_rows s) \<longrightarrow>
        process_tags s product (td1 # rest) =
          (Inr (),
           s\<lparr>tag_rows :=
               tag_rows s @ [\<lparr>tag_pk = fresh_pk (map tag_pk (tag_rows s)), tag_name = m\<rparr>],
             tag_set_of := (tag_set_of s)(product := {fresh_pk (map tag_pk (tag_rows s))})\<rparr>))"
proof -
  have snoc: "first_occurrences seen (tds @ [td])
     = first_occurrences seen tds
       @ (case td_name td of
            None \<Rightarrow> []
          | Some n \<Rightarrow> if n \<in> seen \<or> n \<in> names_of tds then [] else [td])"
    by (simp add: first_occurrences_append split: option.split)
  have one: "process_tags s product (td1 # rest) =
          (Inr (),
           s\<lparr>tag_rows :=
               tag_rows s @ [\<lparr>tag_pk = fresh_pk (map tag_pk (tag_rows s)), tag_name = m\<rparr>],
             tag_set_of := (tag_set_of s)(product := {fresh_pk (map tag_pk (tag_rows s))})\<rparr>)"
    if "\<forall>x\<in>set (td1 # rest). td_name x = Some m" "td_pk td1 = None \<or> td_pk td1 = Some 0"
      "m \<notin> tag_name ` set (tag_rows s)"
    using that by (rule process_tags_same_new_name)
  show ?thesis
    using process_tags_loop_first_occurrences [of s tds insts seen] snoc
      process_tags_loop_count [of s tds insts seen] one
    by blast
qed

theorem tags_deduplicated_by_name_witness:
  "process_tags base_store 1
     [\<lparr>td_pk = None, td_name = Some ''NewTag''\<rparr>, \<lparr>td_pk = None, td_name = Some ''NewTag''\<rparr>]
   = (Inr (),
      base_store\<lparr>tag_rows := tag_rows base_store @ [\<lparr>tag_pk = 3, tag_name = ''NewTag''\<rparr>],
                 tag_set_of := (tag_set_of base_store)(1 := {3})\<rparr>)"
proof -
  let ?td = "\<lparr>td_pk = None, td_name = Some ''NewTag''\<rparr>"
  have h1: "\<forall>x\<in>set (?td # [?td]). td_name x = Some ''NewTag''" by simp
  have h2: "td_pk ?td = None \<or> td_pk ?td = Some 0" by simp
  have h3: "''NewTag'' \<notin> tag_name ` set (tag_rows base_store)" by (simp add: base_store_def)
  have k: "fresh_pk (map tag_pk (tag_rows base_store)) = 3"
    by (simp add: base_store_def fresh_pk_def)
  from tags_deduplicated_by_name [of base_store "[?td]" "[]" "{}" ?td ?td "[?td]" "''NewTag''" 1]
    h1 h2 h3
  have "process_tags base_store 1 (?td # [?td]) =
          (Inr (),
           base_store\<lparr>tag_rows :=
               tag_rows base_store
                 @ [\<lparr>tag_pk = fresh_pk (map tag_pk (tag_rows base_store)), tag_name = ''NewTag''\<rparr>],
             tag_set_of :=
               (tag_set_of base_store)(1 := {fresh_pk (map tag_pk (tag_rows base_store))})\<rparr>)"
    by blast
  then show ?thesis by (simp only: k)
qed

lemma process_tags_tag_rows:
  "\<exists>new. tag_rows (snd (process_tags s product tds)) = tag_rows s @ new"
proof -
  obtain r s2 where l: "process_tags_loop s tds [] {} = (r, s2)"
    by (cases "process_tags_loop s tds [] {}")
  from process_tags_loop_frame [OF l] obtain new where "tag_rows s2 = tag_rows s @ new" by blast
  with l show ?thesis
    by (cases r) (auto simp: process_tags_def)
qed

lemma create_tag_rows: "\<exists>new. tag_rows (snd (create s vd)) = tag_rows s @ new"
proof -
  obtain product s1 where sc: "super_create s (vd\<lparr>pd_tag_set := None\<rparr>) = (product, s1)"
    by (cases "super_create s (vd\<lparr>pd_tag_set := None\<rparr>)")
  then have "tag_rows s1 = tag_rows s"
    using super_create_frame(1) [of s "vd\<lparr>pd_tag_set := None\<rparr>"] by simp
  with process_tags_tag_rows [of s1 product "case pd_tag_set vd of Some tds \<Rightarrow> tds | None \<Rightarrow> []"]
  show ?thesis
    by (auto simp: create_eq [OF sc] split: prod.splits sum.splits)
qed

lemma update_tag_rows: "\<exists>new. tag_rows (snd (update s inst vd)) = tag_rows s @ new"
proof -
  obtain product s1 where sc: "super_update s inst (vd\<lparr>pd_tag_set := None\<rparr>) = (product, s1)"
    by (cases "super_update s inst (vd\<lparr>pd_tag_set := None\<rparr>)")
  then have eq: "tag_rows s1 = tag_rows s"
    using super_update_frame(1) [of s inst "vd\<lparr>pd_tag_set := None\<rparr>"] by simp
  show ?thesis
  proof (cases "pd_tag_set vd")
    case None
    with eq show ?thesis by (simp add: update_eq [OF sc])
  next
    case (Some tds)
    with eq process_tags_tag_rows [of s1 product tds] show ?thesis
      by (auto simp: update_eq [OF sc] split: prod.splits sum.splits)
  qed
qed


text \<open>
  Claim C9, as amended. Tag reconciliation, create and update never modify or delete an
  existing Tag row: the tag table afterwards is the old table followed by new rows. When
  an entry that is processed (it has a name not seen before in the call) carries a key
  that matches a tag, whatever name the entry submits, and the reconciliation completes,
  this tag is associated with the product and its row is still the same.
\<close>

theorem existing_tags_never_modified:
  "(\<exists>new. tag_rows (snd (process_tags s product tds)) = tag_rows s @ new)
   \<and> (\<exists>new. tag_rows (snd (create s_req vd)) = tag_rows s_req @ new)
   \<and> (\<exists>new. tag_rows (snd (update s_req inst vd)) = tag_rows s_req @ new)
   \<and> (process_tags_loop s pre [] {} = (Inr (insts, seen), s_at)
        \<and> td_name td = Some n \<and> n \<notin> seen \<and> td_pk td = Some p \<and> p \<noteq> 0
        \<and> get_tag s_at p = Some t
        \<and> process_tags s product (pre @ td # post) = (Inr (), s') \<longrightarrow>
        p \<in> tag_set_of s' product \<and> get_tag s' p = Some t)"
  using process_tags_tag_rows [of s product tds] create_tag_rows [of s_req vd]
    update_tag_rows [of s_req inst vd]
    process_tags_found [of s pre insts seen s_at td n p t product post s']
  by blast

theorem existing_tags_never_modified_witness:
  "1 \<in> tag_set_of (snd (process_tags base_store 1 [\<lparr>td_pk = Some 1, td_name = Some ''Renamed''\<rparr>])) 1
   \<and> get_tag (snd (process_tags base_store 1 [\<lparr>td_pk = Some 1, td_name = Some ''Renamed''\<rparr>])) 1
       = Some \<lparr>tag_pk = 1, tag_name = ''ExistTag''\<rparr>"
proof -
  let ?td = "\<lparr>td_pk = Some 1, td_name = Some ''Renamed''\<rparr>"
  let ?t = "\<lparr>tag_pk = 1, tag_name = ''ExistTag''\<rparr>"
  define s' where "s' = snd (process_tags base_store 1 ([] @ ?td # []))"
  have h1: "process_tags_loop base_store [] [] {} = (Inr ([], {}), base_store)" by simp
  have h2: "td_name ?td = Some ''Renamed''" "''Renamed'' \<notin> {}" "td_pk ?td = Some 1" "(1::int) \<noteq> 0"
    by simp_all
  have h3: "get_tag base_store 1 = Some ?t" by (simp add: base_store_def get_tag_def)
  have h4: "process_tags base_store 1 ([] @ ?td # []) = (Inr (), s')"
    by (simp add: s'_def process_tags_def base_store_def get_tag_def)
  from existing_tags_never_modified
    [of base_store 1 "[]" base_store "\<lparr>pd_name = None, pd_option_set = None, pd_tag_set = None\<rparr>" 0
      "[]" "[]" "{}" base_store ?td "''Renamed''" 1 ?t "[]" s']
    h1 h2 h3 h4
  have "1 \<in> tag_set_of s' 1 \<and> get_tag s' 1 = Some ?t" by blast
  then show ?thesis by (simp add: s'_def)
qed

text \<open>
  Claim C9 as stated fails: the second entry carries the key of the tag ExistTag and
  another name, but this name was seen before, the entry is skipped, and the tag is not
  associated with the product.
\<close>

theorem renamed_tag_skipped_counterexample:
  "get_tag base_store 1 = Some \<lparr>tag_pk = 1, tag_name = ''ExistTag''\<rparr>
   \<and> fst (create base_store
        \<lparr>pd_name = Some ''P'', pd_option_set = None,
         pd_tag_set = Some [\<lparr>td_pk = None, td_name = Some ''X''\<rparr>,
                            \<lparr>td_pk = Some 1, td_name = Some ''X''\<rparr>]\<rparr>) = Inr 1
   \<and> 1 \<notin> tag_set_of (snd (create base_store
        \<lparr>pd_name = Some ''P'', pd_option_set = None,
         pd_tag_set = Some [\<lparr>td_pk = None, td_name = Some ''X''\<rparr>,
                            \<lparr>td_pk = Some 1, td_name = Some ''X''\<rparr>]\<rparr>)) 1"
  by (simp add: store_evals)


section \<open>Properties of create, update and delete\<close>

lemma process_tags_frame:
  "product_rows (snd (process_tags s product tds)) = product_rows s"
  "option_rows (snd (process_tags s product tds)) = option_rows s"
  "fst (process_tags s product tds) = Inl e \<Longrightarrow>
     tag_set_of (snd (process_tags s product tds)) = tag_set_of s"
proof -
  obtain r s2 where l: "process_tags_loop s tds [] {} = (r, s2)"
    by (cases "process_tags_loop s tds [] {}")
  note fr = process_tags_loop_frame [OF l]
  show "product_rows (snd (process_tags s product tds)) = product_rows s"
    using l fr by (cases r) (auto simp: process_tags_def)
  show "option_rows (snd (process_tags s product tds)) = option_rows s"
    using l fr by (cases r) (auto simp: process_tags_def)
  show "tag_set_of (snd (process_tags s product tds)) = tag_set_of s"
    if "fst (process_tags s product tds) = Inl e"
    using that l fr by (cases r) (auto simp: process_tags_def)
qed

lemma process_tags_empty:
  "process_tags s product [] = (Inr (), s\<lparr>tag_set_of := (tag_set_of s)(product := {})\<rparr>)"
  by (simp add: process_tags_def)

lemma create_snd:
  "snd (create s vd) =
     snd (process_tags (snd (super_create s (vd\<lparr>pd_tag_set := None\<rparr>)))
            (fst (super_create s (vd\<lparr>pd_tag_set := None\<rparr>)))
            (case pd_tag_set vd of Some tds \<Rightarrow> tds | None \<Rightarrow> []))"
  by (simp add: create_def Let_def split: prod.splits sum.splits)

lemma create_fst_Inl:
  "fst (create s vd) = Inl e \<Longrightarrow>
     fst (process_tags (snd (super_create s (vd\<lparr>pd_tag_set := None\<rparr>)))
            (fst (super_create s (vd\<lparr>pd_tag_set := None\<rparr>)))
            (case pd_tag_set vd of Some tds \<Rightarrow> tds | None \<Rightarrow> [])) = Inl e"
  by (simp add: create_def Let_def split: prod.splits sum.splits)

lemma super_update_pair:
  "super_update s inst pd = (inst, snd (super_update s inst pd))"
  using super_update_frame(3) [of s inst pd] by (cases "super_update s inst pd") simp

lemma update_snd:
  "snd (update s inst vd) =
     (case pd_tag_set vd of
        None \<Rightarrow> snd (super_update s inst (vd\<lparr>pd_tag_set := None\<rparr>))
      | Some tds \<Rightarrow>
          snd (process_tags (snd (super_update s inst (vd\<lparr>pd_tag_set := None\<rparr>))) inst tds))"
  by (auto simp: update_eq [OF super_update_pair] split: option.splits prod.splits sum.splits)

lemma update_fst_Inl:
  "fst (update s inst vd) = Inl e \<Longrightarrow>
     \<exists>tds. pd_tag_set vd = Some tds
       \<and> fst (process_tags (snd (super_update s inst (vd\<lparr>pd_tag_set := None\<rparr>))) inst tds) = Inl e"
  by (auto simp: update_eq [OF super_update_pair] split: option.splits prod.splits sum.splits)

lemma super_update_option_rows:
  "option_rows (snd (super_update s inst pd)) =
     (case pd_option_set pd of
        None \<Rightarrow> option_rows s
      | Some sps \<Rightarrow> option_rows (reconcile_options s inst sps))"
  by (simp add: super_update_def Let_def reconcile_options_def owned_pks_def
      split: option.splits)

lemma update_option_rows:
  "option_rows (snd (update s inst vd)) =
     (case pd_option_set vd of
        None \<Rightarrow> option_rows s
      | Some sps \<Rightarrow> option_rows (reconcile_options s inst sps))"
  by (simp add: update_snd process_tags_frame super_update_option_rows split: option.splits)


text \<open>
  Claim C6. An update whose data have no \<^verbatim>\<open>tag_set\<close> field skips tag reconciliation:
  it succeeds and leaves every tag association and the tag table as they were. An update
  whose \<^verbatim>\<open>tag_set\<close> is the empty list runs the reconciliation with no entries: it
  succeeds, the product is associated with no tag afterwards, the other products'
  associations are as before, and no Tag row is deleted.
\<close>

theorem tag_set_omitted_or_empty:
  "(pd_tag_set vd = None \<longrightarrow>
      fst (update s inst vd) = Inr inst
      \<and> tag_set_of (snd (update s inst vd)) = tag_set_of s
      \<and> tag_rows (snd (update s inst vd)) = tag_rows s)
   \<and> (pd_tag_set vd = Some [] \<longrightarrow>
      fst (update s inst vd) = Inr inst
      \<and> tag_set_of (snd (update s inst vd)) = (tag_set_of s)(inst := {})
      \<and> tag_rows (snd (update s inst vd)) = tag_rows s)"
  by (simp add: update_eq [OF super_update_pair] process_tags_empty super_update_frame)

theorem tag_set_omitted_or_empty_witness:
  "tag_set_of (snd (update test_store 1
       \<lparr>pd_name = Some ''Updated Product Name'', pd_option_set = None, pd_tag_set = None\<rparr>)) 1
     = {1, 3}
   \<and> tag_set_of (snd (update test_store 1
       \<lparr>pd_name = Some ''TestProduct'',
        pd_option_set = Some [\<lparr>os_pk = Some 1, os_name = ''TestOption1'', os_price = 1000\<rparr>],
        pd_tag_set = Some []\<rparr>)) 1 = {}
   \<and> map tag_pk (tag_rows (snd (update test_store 1
       \<lparr>pd_name = Some ''TestProduct'',
        pd_option_set = Some [\<lparr>os_pk = Some 1, os_name = ''TestOption1'', os_price = 1000\<rparr>],
        pd_tag_set = Some []\<rparr>))) = [1, 2, 3]"
proof -
  let ?a = "\<lparr>pd_name = Some ''Updated Product Name'', pd_option_set = None, pd_tag_set = None\<rparr>"
  let ?b = "\<lparr>pd_name = Some ''TestProduct'',
        pd_option_set = Some [\<lparr>os_pk = Some 1, os_name = ''TestOption1'', os_price = 1000\<rparr>],
        pd_tag_set = Some []\<rparr>"
  have a: "pd_tag_set ?a = None" by simp
  have b: "pd_tag_set ?b = Some []" by simp
  from tag_set_omitted_or_empty [of ?a test_store 1] a
  have 1: "tag_set_of (snd (update test_store 1 ?a)) = tag_set_of test_store" by blast
  from tag_set_omitted_or_empty [of ?b test_store 1] b
  have 2: "tag_set_of (snd (update test_store 1 ?b)) = (tag_set_of test_store)(1 := {})
      \<and> tag_rows (snd (update test_store 1 ?b)) = tag_rows test_store" by blast
  show ?thesis
    by (simp only: 1 2) (simp add: test_store_def)
qed

text \<open>
  Claim C8. Deleting an existing product removes its Product row and every option row it
  owns and empties its tag association; the rows, options and associations of the other
  products stay, and the tag table is exactly what it was, so every Tag that existed
  before the delete still exists.
\<close>

theorem destroy_keeps_tags:
  assumes "product_exists s p"
  shows "fst (ProductViewSet_destroy s p) = Inr ()
     \<and> \<not> product_exists (snd (ProductViewSet_destroy s p)) p
     \<and> (\<forall>x\<in>set (option_rows (snd (ProductViewSet_destroy s p))). option_product x \<noteq> p)
     \<and> tag_set_of (snd (ProductViewSet_destroy s p)) p = {}
     \<and> tag_rows (snd (ProductViewSet_destroy s p)) = tag_rows s
     \<and> product_rows (snd (ProductViewSet_destroy s p))
         = filter (\<lambda>r. product_pk r \<noteq> p) (product_rows s)
     \<and> option_rows (snd (ProductViewSet_destroy s p))
         = filter (\<lambda>x. option_product x \<noteq> p) (option_rows s)
     \<and> (\<forall>q. q \<noteq> p \<longrightarrow> tag_set_of (snd (ProductViewSet_destroy s p)) q = tag_set_of s q)"
  using assms by (auto simp: ProductViewSet_destroy_def product_exists_def)

theorem destroy_keeps_tags_witness:
  "fst (ProductViewSet_destroy test_store 1) = Inr ()
   \<and> product_rows (snd (ProductViewSet_destroy test_store 1)) = []
   \<and> option_rows (snd (ProductViewSet_destroy test_store 1)) = []
   \<and> tag_set_of (snd (ProductViewSet_destroy test_store 1)) 1 = {}
   \<and> map tag_name (tag_rows (snd (ProductViewSet_destroy test_store 1)))
       = [''ExistTag'', ''AnotherExistTag'', ''NewTag'']"
proof -
  have e: "product_exists test_store 1" by (simp add: product_exists_def test_store_def)
  from destroy_keeps_tags [OF e] show ?thesis
    by (simp add: test_store_def)
qed

section \<open>Properties of option reconciliation\<close>

lemma fold_max_ge: "(a::int) \<le> fold max ks a"
  by (induction ks arbitrary: a) (auto intro: order_trans [OF max.cobounded2])

lemma fold_max_mem: "k \<in> set ks \<Longrightarrow> (k::int) \<le> fold max ks a"
proof (induction ks arbitrary: a)
  case Nil
  then show ?case by simp
next
  case (Cons x ks)
  show ?case
  proof (cases "k = x")
    case True
    have "x \<le> max x a" by simp
    also have "\<dots> \<le> fold max ks (max x a)" by (rule fold_max_ge)
    finally show ?thesis using True by simp
  next
    case False
    with Cons.prems have "k \<in> set ks" by simp
    then show ?thesis by (simp add: Cons.IH)
  qed
qed

lemma fresh_pk_gt: "k \<in> set ks \<Longrightarrow> k < fresh_pk ks"
  using fold_max_mem [of k ks 0] by (simp add: fresh_pk_def)

lemma updated_keeps:
  "option_pk (updated p specs x) = option_pk x"
  "option_product (updated p specs x) = option_product x"
  by (simp_all add: updated_def)

lemma submitted_pks_Nil: "submitted_pks [] = []"
  by (simp add: submitted_pks_def)

lemma set_submitted_pks:
  "set (submitted_pks specs) = {q. \<exists>sp\<in>set specs. os_pk sp = Some q}"
  by (induction specs) (auto simp: submitted_pks_def List.map_filter_simps split: option.splits)

lemmas submitted_pks_simps = submitted_pks_Nil set_submitted_pks

lemma updated_Nil: "updated p [] x = x"
  by (simp add: updated_def submitted_pks_simps)

lemma updated_snoc_match:
  assumes "os_pk sp = Some q"
  shows "(if option_pk (updated p specs x) = q \<and> option_product (updated p specs x) = p
          then (updated p specs x)\<lparr>option_name := os_name sp, option_price := os_price sp\<rparr>
          else updated p specs x)
         = updated p (specs @ [sp]) x"
proof (cases "option_product x = p \<and> option_pk x = q")
  case True
  have "last_spec q (specs @ [sp]) = sp" using assms by (simp add: last_spec_def)
  moreover have "q \<in> set (submitted_pks (specs @ [sp]))"
    using assms by (auto simp: submitted_pks_simps)
  ultimately show ?thesis using True by (simp add: updated_def)
next
  case False
  have "option_product x = p \<Longrightarrow>
      last_spec (option_pk x) (specs @ [sp]) = last_spec (option_pk x) specs"
    using assms False by (simp add: last_spec_def)
  moreover have "option_product x = p \<Longrightarrow>
      option_pk x \<in> set (submitted_pks (specs @ [sp])) \<longleftrightarrow> option_pk x \<in> set (submitted_pks specs)"
    using assms False by (auto simp: submitted_pks_simps)
  ultimately show ?thesis using False by (auto simp: updated_def)
qed

lemma updated_snoc_other:
  assumes "\<not> matches old sp"
    and "option_product x = p \<longrightarrow> option_pk x \<in> set old"
  shows "updated p (specs @ [sp]) x = updated p specs x"
proof (cases "option_product x = p")
  case False
  then show ?thesis by (simp add: updated_def)
next
  case True
  with assms have ne: "os_pk sp \<noteq> Some (option_pk x)"
    by (auto simp: matches_def)
  then have "last_spec (option_pk x) (specs @ [sp]) = last_spec (option_pk x) specs"
    by (simp add: last_spec_def)
  moreover have "option_pk x \<in> set (submitted_pks (specs @ [sp]))
      \<longleftrightarrow> option_pk x \<in> set (submitted_pks specs)"
    using ne by (auto simp: submitted_pks_simps)
  ultimately show ?thesis by (simp add: updated_def)
qed


lemma owned_pks_mem:
  "x \<in> set (option_rows s) \<Longrightarrow> option_product x = p \<Longrightarrow> option_pk x \<in> set (owned_pks s p)"
  by (auto simp: owned_pks_def)

lemma owned_pks_row:
  "q \<in> set (owned_pks s p) \<Longrightarrow> \<exists>y\<in>set (option_rows s). option_pk y = q"
  by (auto simp: owned_pks_def)

lemma fold_upsert_option:
  "\<exists>created.
     fold (upsert_option p (owned_pks s p)) specs (option_rows s)
       = map (updated p specs) (option_rows s) @ created
     \<and> map (\<lambda>x. (option_product x, option_name x, option_price x)) created
       = map (\<lambda>sp. (p, os_name sp, os_price sp))
           (filter (\<lambda>sp. \<not> matches (owned_pks s p) sp) specs)
     \<and> (\<forall>x\<in>set created. \<forall>y\<in>set (option_rows s). option_pk y < option_pk x)
     \<and> sorted_wrt (<) (map option_pk created)"
proof (induction specs rule: rev_induct)
  case Nil
  have "updated p [] = (\<lambda>x. x)" by (rule ext) (simp add: updated_Nil)
  then show ?case by simp
next
  case (snoc sp specs)
  let ?old = "owned_pks s p"
  let ?rows = "option_rows s"
  from snoc obtain created where
    R: "fold (upsert_option p ?old) specs ?rows = map (updated p specs) ?rows @ created"
    and info: "map (\<lambda>x. (option_product x, option_name x, option_price x)) created
       = map (\<lambda>sp. (p, os_name sp, os_price sp)) (filter (\<lambda>sp. \<not> matches ?old sp) specs)"
    and above: "\<forall>x\<in>set created. \<forall>y\<in>set ?rows. option_pk y < option_pk x"
    and sorted: "sorted_wrt (<) (map option_pk created)"
    by blast
  let ?R = "map (updated p specs) ?rows @ created"
  have step: "fold (upsert_option p ?old) (specs @ [sp]) ?rows = upsert_option p ?old sp ?R"
    by (simp add: R)
  show ?case
  proof (cases "matches ?old sp")
    case True
    then obtain q where q: "os_pk sp = Some q" "q \<in> set ?old"
      by (auto simp: matches_def split: option.splits)
    let ?g = "\<lambda>x. if option_pk x = the (os_pk sp) \<and> option_product x = p
                  then x\<lparr>option_name := os_name sp, option_price := os_price sp\<rparr> else x"
    have old_rows: "map ?g (map (updated p specs) ?rows) = map (updated p (specs @ [sp])) ?rows"
      using updated_snoc_match [OF q(1), of p specs] q(1) by simp
    from owned_pks_row [OF q(2)] obtain y where "y \<in> set ?rows" "option_pk y = q" by blast
    with above have "\<forall>x\<in>set created. option_pk x \<noteq> q" by fastforce
    then have "map ?g created = created" using q(1) by (simp add: map_idI)
    with old_rows True
    have "upsert_option p ?old sp ?R = map (updated p (specs @ [sp])) ?rows @ created"
      by (simp add: upsert_option_def)
    with step info above sorted True show ?thesis by auto
  next
    case False
    let ?new = "new_option p ?R sp"
    have old_rows: "map (updated p (specs @ [sp])) ?rows = map (updated p specs) ?rows"
      using updated_snoc_other [OF False, of _ p specs] owned_pks_mem [of _ s p] by simp
    have gt: "k < option_pk ?new" if "k \<in> set (map option_pk ?R)" for k
      using fresh_pk_gt [OF that] by (simp add: new_option_def)
    have above_rows: "\<forall>y\<in>set ?rows. option_pk y < option_pk ?new"
    proof
      fix y assume "y \<in> set ?rows"
      then have "option_pk y \<in> set (map option_pk ?R)"
        by (auto simp: updated_keeps image_iff intro!: bexI [of _ y])
      then show "option_pk y < option_pk ?new" by (rule gt)
    qed
    have above_created: "\<forall>x\<in>set created. option_pk x < option_pk ?new"
    proof
      fix x assume "x \<in> set created"
      then have "option_pk x \<in> set (map option_pk ?R)" by simp
      then show "option_pk x < option_pk ?new" by (rule gt)
    qed
    have up: "upsert_option p ?old sp ?R = map (updated p (specs @ [sp])) ?rows @ (created @ [?new])"
      using False old_rows by (simp add: upsert_option_def)
    have info': "map (\<lambda>x. (option_product x, option_name x, option_price x)) (created @ [?new])
       = map (\<lambda>sp. (p, os_name sp, os_price sp)) (filter (\<lambda>sp. \<not> matches ?old sp) (specs @ [sp]))"
      using info False by (simp add: new_option_def)
    have above': "\<forall>x\<in>set (created @ [?new]). \<forall>y\<in>set ?rows. option_pk y < option_pk x"
      using above above_rows by auto
    have sorted': "sorted_wrt (<) (map option_pk (created @ [?new]))"
      using sorted above_created by (simp add: sorted_wrt_append)
    from step up
    have whole: "fold (upsert_option p ?old) (specs @ [sp]) ?rows
        = map (updated p (specs @ [sp])) ?rows @ (created @ [?new])"
      by (rule trans)
    show ?thesis
    proof (intro exI conjI)
      show "fold (upsert_option p ?old) (specs @ [sp]) ?rows
        = map (updated p (specs @ [sp])) ?rows @ (created @ [?new])"
        by (rule whole)
    qed (rule info' above' sorted')+
  qed
qed


lemma reconcile_options_rows:
  "\<exists>created.
     option_rows (reconcile_options s p specs)
       = map (updated p specs)
           (filter (\<lambda>x. option_product x \<noteq> p \<or> option_pk x \<in> set (submitted_pks specs))
              (option_rows s))
         @ created
     \<and> map (\<lambda>x. (option_product x, option_name x, option_price x)) created
       = map (\<lambda>sp. (p, os_name sp, os_price sp))
           (filter (\<lambda>sp. \<not> matches (owned_pks s p) sp) specs)
     \<and> (\<forall>x\<in>set created. \<forall>y\<in>set (option_rows s). option_pk y < option_pk x)
     \<and> sorted_wrt (<) (map option_pk created)"
proof -
  let ?old = "owned_pks s p"
  let ?rows = "option_rows s"
  let ?keep = "\<lambda>x. \<not> (option_product x = p \<and> option_pk x \<in> set ?old
                          \<and> option_pk x \<notin> set (submitted_pks specs))"
  from fold_upsert_option [of p s specs] obtain created where
    R: "fold (upsert_option p ?old) specs ?rows = map (updated p specs) ?rows @ created"
    and info: "map (\<lambda>x. (option_product x, option_name x, option_price x)) created
       = map (\<lambda>sp. (p, os_name sp, os_price sp)) (filter (\<lambda>sp. \<not> matches ?old sp) specs)"
    and above: "\<forall>x\<in>set created. \<forall>y\<in>set ?rows. option_pk y < option_pk x"
    and sorted: "sorted_wrt (<) (map option_pk created)"
    by blast
  have "\<forall>x\<in>set created. option_pk x \<notin> set ?old"
  proof
    fix x assume x: "x \<in> set created"
    show "option_pk x \<notin> set ?old"
    proof
      assume "option_pk x \<in> set ?old"
      from owned_pks_row [OF this] obtain y where "y \<in> set ?rows" "option_pk y = option_pk x"
        by blast
      with above x show False by fastforce
    qed
  qed
  then have kc: "filter ?keep created = created" by simp
  have "filter ?keep (map (updated p specs) ?rows)
      = map (updated p specs) (filter (?keep \<circ> updated p specs) ?rows)"
    by (simp only: filter_map)
  also have "filter (?keep \<circ> updated p specs) ?rows
      = filter (\<lambda>x. option_product x \<noteq> p \<or> option_pk x \<in> set (submitted_pks specs)) ?rows"
    using owned_pks_mem [of _ s p] by (intro filter_cong) (auto simp: updated_keeps)
  finally have kr: "filter ?keep (map (updated p specs) ?rows)
      = map (updated p specs)
          (filter (\<lambda>x. option_product x \<noteq> p \<or> option_pk x \<in> set (submitted_pks specs)) ?rows)" .
  have whole: "option_rows (reconcile_options s p specs)
       = map (updated p specs)
           (filter (\<lambda>x. option_product x \<noteq> p \<or> option_pk x \<in> set (submitted_pks specs)) ?rows)
         @ created"
  proof -
    have "option_rows (reconcile_options s p specs)
        = filter ?keep (fold (upsert_option p ?old) specs ?rows)"
      by (simp add: reconcile_options_def Let_def)
    also have "\<dots> = filter ?keep (map (updated p specs) ?rows) @ filter ?keep created"
      by (simp only: R filter_append)
    finally show ?thesis by (simp only: kc kr)
  qed
  show ?thesis
  proof (intro exI conjI)
    show "option_rows (reconcile_options s p specs)
       = map (updated p specs)
           (filter (\<lambda>x. option_product x \<noteq> p \<or> option_pk x \<in> set (submitted_pks specs)) ?rows)
         @ created"
      by (rule whole)
  qed (rule info above sorted)+
qed

text \<open>
  Claim C4. An update whose \<^verbatim>\<open>option_set\<close> is present reconciles the options as a
  full replacement keyed by the primary key. The option table afterwards consists of the
  old rows without those rows of the product whose key is not submitted (they are
  deleted), where each remaining row of the product has the name and price of the
  (last) entry bearing its key and keeps its place, followed by the created rows: one
  row owned by the product for each entry without a matching key, in the submitted
  order, with the entry's name and price and with a key above every old key.
\<close>

theorem option_set_full_replacement:
  assumes "pd_option_set vd = Some specs"
  shows "\<exists>created.
     option_rows (snd (update s inst vd))
       = map (updated inst specs)
           (filter (\<lambda>x. option_product x \<noteq> inst \<or> option_pk x \<in> set (submitted_pks specs))
              (option_rows s))
         @ created
     \<and> map (\<lambda>x. (option_product x, option_name x, option_price x)) created
       = map (\<lambda>sp. (inst, os_name sp, os_price sp))
           (filter (\<lambda>sp. \<not> matches (owned_pks s inst) sp) specs)
     \<and> (\<forall>x\<in>set created. \<forall>y\<in>set (option_rows s). option_pk y < option_pk x)
     \<and> sorted_wrt (<) (map option_pk created)"
  using reconcile_options_rows [of s inst specs] assms
  by (simp add: update_option_rows)

theorem option_set_full_replacement_witness:
  "map (\<lambda>x. (option_product x, option_name x, option_price x))
     (option_rows (snd (update test_store 1
        \<lparr>pd_name = Some ''TestProduct'',
         pd_option_set = Some [\<lparr>os_pk = Some 1, os_name = ''TestOption1'', os_price = 1000\<rparr>,
                               \<lparr>os_pk = Some 2, os_name = ''Edit TestOption2'', os_price = 1500\<rparr>,
                               \<lparr>os_pk = None, os_name = ''Edit New Option'', os_price = 300\<rparr>],
         pd_tag_set = None\<rparr>)))
   = [(1, ''TestOption1'', 1000), (1, ''Edit TestOption2'', 1500), (1, ''Edit New Option'', 300)]"
proof -
  let ?specs = "[\<lparr>os_pk = Some 1, os_name = ''TestOption1'', os_price = 1000\<rparr>,
                 \<lparr>os_pk = Some 2, os_name = ''Edit TestOption2'', os_price = 1500\<rparr>,
                 \<lparr>os_pk = None, os_name = ''Edit New Option'', os_price = 300\<rparr>]"
  let ?vd = "\<lparr>pd_name = Some ''TestProduct'', pd_option_set = Some ?specs, pd_tag_set = None\<rparr>"
  let ?info = "\<lambda>x. (option_product x, option_name x, option_price x)"
  have h: "pd_option_set ?vd = Some ?specs" by simp
  from option_set_full_replacement [OF h, of test_store 1] obtain created where
    rows: "option_rows (snd (update test_store 1 ?vd))
       = map (updated 1 ?specs)
           (filter (\<lambda>x. option_product x \<noteq> 1 \<or> option_pk x \<in> set (submitted_pks ?specs))
              (option_rows test_store))
         @ created"
    and info: "map ?info created
       = map (\<lambda>sp. (1, os_name sp, os_price sp))
           (filter (\<lambda>sp. \<not> matches (owned_pks test_store 1) sp) ?specs)"
    by blast
  have kept: "map ?info (map (updated 1 ?specs)
           (filter (\<lambda>x. option_product x \<noteq> 1 \<or> option_pk x \<in> set (submitted_pks ?specs))
              (option_rows test_store)))
      = [(1, ''TestOption1'', 1000), (1, ''Edit TestOption2'', 1500)]"
    by (simp add: test_store_def submitted_pks_def List.map_filter_def updated_def last_spec_def)
  have new: "map (\<lambda>sp. (1::int, os_name sp, os_price sp))
           (filter (\<lambda>sp. \<not> matches (owned_pks test_store 1) sp) ?specs)
      = [(1, ''Edit New Option'', 300)]"
    by (simp add: test_store_def owned_pks_def matches_def)
  have "map ?info (option_rows (snd (update test_store 1 ?vd)))
      = map ?info (map (updated 1 ?specs)
           (filter (\<lambda>x. option_product x \<noteq> 1 \<or> option_pk x \<in> set (submitted_pks ?specs))
              (option_rows test_store))) @ map ?info created"
    by (simp only: rows map_append)
  then show ?thesis by (simp only: kept info new append.simps)
qed

section \<open>Properties of requests\<close>

lemma is_space_simps:
  "is_space (CHR '' '')" "\<not> is_space (CHR ''A'')" "\<not> is_space (CHR ''X'')"
  by (simp_all add: is_space_def)


lemma atomic_fst: "fst (atomic s r) = fst r"
  by (cases r, cases "fst r") (auto simp: atomic_def)

lemma atomic_Inl: "fst r = Inl e \<Longrightarrow> atomic s r = (Inl e, s)"
  by (cases r) (simp add: atomic_def)

lemma atomic_Inr: "atomic s r = (Inr v, s') \<longleftrightarrow> r = (Inr v, s')"
  by (cases r, cases "fst r") (auto simp: atomic_def)

lemma atomic_snd_Inl: "fst (atomic s r) = Inl e \<Longrightarrow> snd (atomic s r) = s"
  by (cases r, cases "fst r") (auto simp: atomic_def)

lemma run_validation_blank:
  "pd_option_set pd = Some sps \<Longrightarrow> \<exists>sp\<in>set sps. strip (os_name sp) = [] \<Longrightarrow>
   run_validation nf pd = Inl (ValidationError [''option_set'', ''name''] OptionNameRequired)"
  by (simp add: run_validation_def validate_options_eq)

lemma run_validation_Inr:
  assumes "run_validation nf pd = Inr vd"
  shows "pd_name vd = pd_name pd"
    and "pd_option_set vd
           = map_option (map (\<lambda>sp. sp\<lparr>os_name := strip (os_name sp)\<rparr>)) (pd_option_set pd)"
    and "pd_tag_set pd = None \<Longrightarrow> pd_tag_set vd = None"
    and "pd_option_set pd = Some sps \<Longrightarrow> \<forall>sp\<in>set sps. strip (os_name sp) \<noteq> []"
  using assms
  by (auto simp: run_validation_def validate_options_eq
      split: option.splits sum.splits if_splits)


text \<open>
  Claim C7. An update, and a PATCH request, whose data have no \<^verbatim>\<open>option_set\<close> field
  leaves the option table exactly as it was, in count and in content, whatever it does to
  the name and the tags.
\<close>

theorem options_untouched_when_omitted:
  assumes "pd_option_set vd = None"
  shows "option_rows (snd (update s inst vd)) = option_rows s
     \<and> option_rows (snd (ProductViewSet_partial_update nf s inst vd)) = option_rows s"
proof -
  have u: "option_rows (snd (update s inst vd)) = option_rows s"
    using assms by (simp add: update_option_rows)
  have v: "option_rows (snd (ProductViewSet_partial_update nf s inst vd)) = option_rows s"
  proof (cases "product_exists s inst")
    case False
    then show ?thesis by (simp add: ProductViewSet_partial_update_def)
  next
    case True
    show ?thesis
    proof (cases "run_validation nf vd")
      case (Inl e)
      with True show ?thesis by (simp add: ProductViewSet_partial_update_def)
    next
      case (Inr vd')
      from run_validation_Inr(2) [OF Inr] assms have none: "pd_option_set vd' = None" by simp
      have "option_rows (snd (atomic s (update s inst vd'))) = option_rows s"
      proof (cases "fst (update s inst vd')")
        case (Inl e)
        then show ?thesis by (simp add: atomic_Inl)
      next
        case r: (Inr q)
        then have "atomic s (update s inst vd') = update s inst vd'"
          by (cases "update s inst vd'") (simp add: atomic_def)
        with none show ?thesis by (simp add: update_option_rows)
      qed
      with True Inr show ?thesis by (simp add: ProductViewSet_partial_update_def)
    qed
  qed
  from u v show ?thesis by simp
qed

theorem options_untouched_when_omitted_witness:
  "option_rows (snd (ProductViewSet_partial_update plain_field test_store 1
       \<lparr>pd_name = Some ''Updated Product Name'', pd_option_set = None, pd_tag_set = None\<rparr>))
     = [\<lparr>option_pk = 1, option_product = 1, option_name = ''TestOption1'', option_price = 1000\<rparr>,
        \<lparr>option_pk = 2, option_product = 1, option_name = ''TestOption2'', option_price = 500\<rparr>,
        \<lparr>option_pk = 3, option_product = 1, option_name = ''TestOption3'', option_price = 0\<rparr>]"
proof -
  let ?a = "\<lparr>pd_name = Some ''Updated Product Name'', pd_option_set = None, pd_tag_set = None\<rparr>"
  have a: "pd_option_set ?a = None" by simp
  from options_untouched_when_omitted [OF a, of test_store 1 plain_field]
  have "option_rows (snd (ProductViewSet_partial_update plain_field test_store 1 ?a))
      = option_rows test_store"
    by blast
  then show ?thesis by (simp add: test_store_def)
qed

lemma process_tags_missing:
  assumes pre: "process_tags_loop s pre [] {} = (Inr (insts, seen), s_at)"
    and td: "td_name td = Some n" "n \<notin> seen" "td_pk td = Some k" "k \<noteq> 0"
    and none: "get_tag s_at k = None"
  shows "process_tags s product (pre @ td # post)
     = (Inl (ValidationError [''tag_set''] (TagIdNotFound k)), s_at)"
  using none by (simp add: process_tags_def process_tags_reaches_pk [OF pre td])

lemma create_fails_missing:
  assumes sc: "super_create s_req (vd\<lparr>pd_tag_set := None\<rparr>) = (product, s)"
    and vd: "pd_tag_set vd = Some (pre @ td # post)"
    and pre: "process_tags_loop s pre [] {} = (Inr (insts, seen), s_at)"
    and td: "td_name td = Some n" "n \<notin> seen" "td_pk td = Some k" "k \<noteq> 0"
    and none: "get_tag s_at k = None"
  shows "fst (create s_req vd) = Inl (ValidationError [''tag_set''] (TagIdNotFound k))"
  by (simp add: create_eq [OF sc] vd process_tags_missing [OF pre td none])

lemma update_fails_missing:
  assumes sc: "super_update s_req inst (vd\<lparr>pd_tag_set := None\<rparr>) = (product, s)"
    and vd: "pd_tag_set vd = Some (pre @ td # post)"
    and pre: "process_tags_loop s pre [] {} = (Inr (insts, seen), s_at)"
    and td: "td_name td = Some n" "n \<notin> seen" "td_pk td = Some k" "k \<noteq> 0"
    and none: "get_tag s_at k = None"
  shows "fst (update s_req inst vd) = Inl (ValidationError [''tag_set''] (TagIdNotFound k))"
  by (simp add: update_eq [OF sc] vd process_tags_missing [OF pre td none])

lemma view_create_snd_Inl:
  "fst (ProductViewSet_create nf s pd) = Inl e \<Longrightarrow> snd (ProductViewSet_create nf s pd) = s"
  by (cases "run_validation nf pd")
     (auto simp: ProductViewSet_create_def dest: atomic_snd_Inl)

lemma view_partial_update_snd_Inl:
  "fst (ProductViewSet_partial_update nf s p pd) = Inl e \<Longrightarrow>
   snd (ProductViewSet_partial_update nf s p pd) = s"
  by (cases "run_validation nf pd")
     (auto simp: ProductViewSet_partial_update_def dest: atomic_snd_Inl split: if_splits)

text \<open>
  Claim C2, as amended. A create or update request that fails is rolled back as a whole:
  the store afterwards is the store before the request, so there is no new Product row,
  no new or orphan option row, no new Tag row and no changed tag association. This
  covers a request whose option validation fails, which is rejected before anything is
  written, and a request whose save fails in the serializer, as it does when tag
  reconciliation processes an entry (one with a name not seen before in the call) whose
  key matches no tag.
\<close>

theorem failed_request_rolled_back:
  "(run_validation nf pd = Inl e \<longrightarrow>
      ProductViewSet_create nf s pd = (Inl e, s)
      \<and> (product_exists s p \<longrightarrow> ProductViewSet_partial_update nf s p pd = (Inl e, s)))
   \<and> (pd_option_set pd = Some sps \<and> (\<exists>sp\<in>set sps. strip (os_name sp) = []) \<longrightarrow>
      run_validation nf pd
        = Inl (ValidationError [''option_set'', ''name''] OptionNameRequired))
   \<and> (fst (ProductViewSet_create nf s pd) = Inl e \<longrightarrow>
      snd (ProductViewSet_create nf s pd) = s)
   \<and> (fst (ProductViewSet_partial_update nf s p pd) = Inl e \<longrightarrow>
      snd (ProductViewSet_partial_update nf s p pd) = s)
   \<and> (pd_tag_set vd = Some (pre @ td # post)
       \<and> process_tags_loop s1 pre [] {} = (Inr (insts, seen), s2)
       \<and> td_name td = Some n \<and> n \<notin> seen \<and> td_pk td = Some k \<and> k \<noteq> 0
       \<and> get_tag s2 k = None \<longrightarrow>
      (super_create s (vd\<lparr>pd_tag_set := None\<rparr>) = (product, s1) \<longrightarrow>
         atomic s (create s vd) = (Inl (ValidationError [''tag_set''] (TagIdNotFound k)), s))
      \<and> (super_update s p (vd\<lparr>pd_tag_set := None\<rparr>) = (product, s1) \<longrightarrow>
         atomic s (update s p vd) = (Inl (ValidationError [''tag_set''] (TagIdNotFound k)), s)))"
proof -
  have a: "run_validation nf pd = Inl e \<Longrightarrow>
      ProductViewSet_create nf s pd = (Inl e, s)
      \<and> (product_exists s p \<longrightarrow> ProductViewSet_partial_update nf s p pd = (Inl e, s))"
    by (simp add: ProductViewSet_create_def ProductViewSet_partial_update_def)
  have b: "pd_option_set pd = Some sps \<and> (\<exists>sp\<in>set sps. strip (os_name sp) = []) \<Longrightarrow>
      run_validation nf pd
        = Inl (ValidationError [''option_set'', ''name''] OptionNameRequired)"
    using run_validation_blank [of pd sps nf] by blast
  have c: "atomic s (create s vd) = (Inl (ValidationError [''tag_set''] (TagIdNotFound k)), s)"
    if "pd_tag_set vd = Some (pre @ td # post)"
      "process_tags_loop s1 pre [] {} = (Inr (insts, seen), s2)"
      "td_name td = Some n" "n \<notin> seen" "td_pk td = Some k" "k \<noteq> 0" "get_tag s2 k = None"
      "super_create s (vd\<lparr>pd_tag_set := None\<rparr>) = (product, s1)"
    using create_fails_missing [OF that(8) that(1-7)] by (rule atomic_Inl)
  have d: "atomic s (update s p vd) = (Inl (ValidationError [''tag_set''] (TagIdNotFound k)), s)"
    if "pd_tag_set vd = Some (pre @ td # post)"
      "process_tags_loop s1 pre [] {} = (Inr (insts, seen), s2)"
      "td_name td = Some n" "n \<notin> seen" "td_pk td = Some k" "k \<noteq> 0" "get_tag s2 k = None"
      "super_update s p (vd\<lparr>pd_tag_set := None\<rparr>) = (product, s1)"
    using update_fails_missing [OF that(8) that(1-7)] by (rule atomic_Inl)
  show ?thesis
    using a b c d view_create_snd_Inl [of nf s pd e] view_partial_update_snd_Inl [of nf s p pd e]
    by blast
qed

theorem failed_request_rolled_back_witness:
  "ProductViewSet_create plain_field base_store
     \<lparr>pd_name = Some ''InvalidOptionProduct'',
      pd_option_set = Some [\<lparr>os_pk = None, os_name = [], os_price = 1000\<rparr>],
      pd_tag_set = Some []\<rparr>
     = (Inl (ValidationError [''option_set'', ''name''] OptionNameRequired), base_store)
   \<and> atomic base_store (create base_store
         \<lparr>pd_name = Some ''InvalidTagProduct'',
          pd_option_set = Some [\<lparr>os_pk = None, os_name = ''Option1'', os_price = 1000\<rparr>],
          pd_tag_set = Some [\<lparr>td_pk = Some 99999, td_name = Some ''NonExistentTag''\<rparr>]\<rparr>)
     = (Inl (ValidationError [''tag_set''] (TagIdNotFound 99999)), base_store)"
proof -
  let ?sp = "\<lparr>os_pk = None, os_name = [], os_price = 1000\<rparr>"
  let ?pd = "\<lparr>pd_name = Some ''InvalidOptionProduct'', pd_option_set = Some [?sp],
      pd_tag_set = Some []\<rparr>"
  let ?td = "\<lparr>td_pk = Some 99999, td_name = Some ''NonExistentTag''\<rparr>"
  let ?vd = "\<lparr>pd_name = Some ''InvalidTagProduct'',
          pd_option_set = Some [\<lparr>os_pk = None, os_name = ''Option1'', os_price = 1000\<rparr>],
          pd_tag_set = Some [?td]\<rparr>"
  let ?E = "ValidationError [''option_set'', ''name''] OptionNameRequired"
  define s1 where "s1 = snd (super_create base_store (?vd\<lparr>pd_tag_set := None\<rparr>))"
  have sc: "super_create base_store (?vd\<lparr>pd_tag_set := None\<rparr>) = (1, s1)"
    by (simp add: s1_def store_evals)
  have blank: "pd_option_set ?pd = Some [?sp] \<and> (\<exists>sp\<in>set [?sp]. strip (os_name sp) = [])"
    by (simp add: strip_def)
  have h: "pd_tag_set ?vd = Some ([] @ ?td # [])
       \<and> process_tags_loop s1 [] [] {} = (Inr ([], {}), s1)
       \<and> td_name ?td = Some ''NonExistentTag'' \<and> ''NonExistentTag'' \<notin> {}
       \<and> td_pk ?td = Some 99999 \<and> (99999::int) \<noteq> 0
       \<and> get_tag s1 99999 = None"
    by (simp add: s1_def store_evals)
  note rb = failed_request_rolled_back
    [of plain_field ?pd ?E base_store 0 "[?sp]"
      ?vd "[]" ?td "[]" s1 "[]" "{}" s1 "''NonExistentTag''" 99999 1]
  from rb blank have "run_validation plain_field ?pd = Inl ?E" by blast
  with rb have 1: "ProductViewSet_create plain_field base_store ?pd = (Inl ?E, base_store)"
    by blast
  from rb h sc
  have 2: "atomic base_store (create base_store ?vd)
      = (Inl (ValidationError [''tag_set''] (TagIdNotFound 99999)), base_store)"
    by blast
  from 1 2 show ?thesis by simp
qed

text \<open>
  Claim C2 as stated fails: the second entry refers to the key 999, which no tag has,
  but its name was seen before and the entry is skipped, so the request is not rolled
  back: it succeeds and the store holds a new Product row. This is so whether the
  validation delivers the names as submitted or stripped, and also when the entries are
  handed to the serializer with their keys.
\<close>

theorem missing_tag_pk_not_rolled_back_counterexample:
  "get_tag base_store 999 = None
   \<and> product_rows base_store = []
   \<and> fst (ProductViewSet_create plain_field base_store
        \<lparr>pd_name = Some ''P'', pd_option_set = None,
         pd_tag_set = Some [\<lparr>td_pk = None, td_name = Some ''A''\<rparr>,
                            \<lparr>td_pk = Some 999, td_name = Some ''A''\<rparr>]\<rparr>) = Inr 1
   \<and> product_rows (snd (ProductViewSet_create plain_field base_store
        \<lparr>pd_name = Some ''P'', pd_option_set = None,
         pd_tag_set = Some [\<lparr>td_pk = None, td_name = Some ''A''\<rparr>,
                            \<lparr>td_pk = Some 999, td_name = Some ''A''\<rparr>]\<rparr>))
       = [\<lparr>product_pk = 1, product_name = ''P''\<rparr>]
   \<and> product_rows (snd (ProductViewSet_create trimming_field base_store
        \<lparr>pd_name = Some ''P'', pd_option_set = None,
         pd_tag_set = Some [\<lparr>td_pk = None, td_name = Some ''A''\<rparr>,
                            \<lparr>td_pk = Some 999, td_name = Some ''A''\<rparr>]\<rparr>))
       = [\<lparr>product_pk = 1, product_name = ''P''\<rparr>]
   \<and> product_rows (snd (atomic base_store (create base_store
        \<lparr>pd_name = Some ''P'', pd_option_set = None,
         pd_tag_set = Some [\<lparr>td_pk = None, td_name = Some ''A''\<rparr>,
                            \<lparr>td_pk = Some 999, td_name = Some ''A''\<rparr>]\<rparr>)))
       = [\<lparr>product_pk = 1, product_name = ''P''\<rparr>]"
  by (simp add: store_evals ProductViewSet_create_def run_validation_def TagSerializer_def
      plain_field_def trimming_field_def atomic_def strip_def is_space_simps)

text \<open>
  The payload of the test \<^verbatim>\<open>test_create_product_with_invalid_existing_tag_pk\<close>. The
  key 99999 is read-only and does not reach the reconciliation: with a name field that
  delivers the submitted name the request creates the tag NonExistentTag and succeeds,
  where the test expects an error.
\<close>

lemma read_only_tag_pk_ignored:
  "fst (ProductViewSet_create plain_field base_store
         \<lparr>pd_name = Some ''InvalidTagProduct'',
          pd_option_set = Some [\<lparr>os_pk = None, os_name = ''Option1'', os_price = 1000\<rparr>],
          pd_tag_set = Some [\<lparr>td_pk = Some 99999, td_name = Some ''NonExistentTag''\<rparr>]\<rparr>)
     = Inr 1
   \<and> map tag_name (tag_rows (snd (ProductViewSet_create plain_field base_store
         \<lparr>pd_name = Some ''InvalidTagProduct'',
          pd_option_set = Some [\<lparr>os_pk = None, os_name = ''Option1'', os_price = 1000\<rparr>],
          pd_tag_set = Some [\<lparr>td_pk = Some 99999, td_name = Some ''NonExistentTag''\<rparr>]\<rparr>)))
     = [''ExistTag'', ''AnotherExistTag'', ''NonExistentTag'']"
  by (simp add: store_evals ProductViewSet_create_def run_validation_def TagSerializer_def
      plain_field_def atomic_def validate_option_def validate_name_def strip_def is_space_def)


lemma super_create_fst:
  "fst (super_create s pd) = fresh_pk (map product_pk (product_rows s))"
  by (simp add: super_create_def Let_def)




lemma created_owner:
  assumes "map (\<lambda>x. (option_product x, option_name x, option_price x)) created
      = map (\<lambda>sp. (p, os_name sp, os_price sp)) specs"
  shows "\<forall>x\<in>set created. option_product x = p"
proof -
  from assms have "map fst (map (\<lambda>x. (option_product x, option_name x, option_price x)) created)
      = map fst (map (\<lambda>sp. (p, os_name sp, os_price sp)) specs)"
    by simp
  then have "map option_product created = map (\<lambda>sp. p) specs" by (simp add: comp_def)
  then have "set (map option_product created) \<subseteq> {p}" by auto
  then show ?thesis by auto
qed

lemma created_values:
  assumes "map (\<lambda>x. (option_product x, option_name x, option_price x)) created
      = map (\<lambda>sp. (p, os_name sp, os_price sp)) specs"
  shows "map (\<lambda>x. (option_name x, option_price x)) created
      = map (\<lambda>sp. (os_name sp, os_price sp)) specs"
proof -
  from assms have "map snd (map (\<lambda>x. (option_product x, option_name x, option_price x)) created)
      = map snd (map (\<lambda>sp. (p, os_name sp, os_price sp)) specs)"
    by simp
  then show ?thesis by (simp add: comp_def)
qed

lemma reconcile_options_fresh:
  assumes "\<forall>x\<in>set (option_rows s). option_product x \<noteq> p"
  shows "map (\<lambda>x. (option_name x, option_price x)) (option_set_of (reconcile_options s p specs) p)
      = map (\<lambda>sp. (os_name sp, os_price sp)) specs"
proof -
  from reconcile_options_rows [of s p specs] obtain created where
    rows: "option_rows (reconcile_options s p specs)
       = map (updated p specs)
           (filter (\<lambda>x. option_product x \<noteq> p \<or> option_pk x \<in> set (submitted_pks specs))
              (option_rows s))
         @ created"
    and info: "map (\<lambda>x. (option_product x, option_name x, option_price x)) created
       = map (\<lambda>sp. (p, os_name sp, os_price sp))
           (filter (\<lambda>sp. \<not> matches (owned_pks s p) sp) specs)"
    by blast
  have "owned_pks s p = []" using assms by (auto simp: owned_pks_def filter_empty_conv)
  then have "filter (\<lambda>sp. \<not> matches (owned_pks s p) sp) specs = specs"
    by (simp add: matches_def split: option.splits)
  with info have info': "map (\<lambda>x. (option_product x, option_name x, option_price x)) created
       = map (\<lambda>sp. (p, os_name sp, os_price sp)) specs"
    by simp
  have old: "filter (\<lambda>x. option_product x = p)
      (map (updated p specs)
         (filter (\<lambda>x. option_product x \<noteq> p \<or> option_pk x \<in> set (submitted_pks specs))
            (option_rows s))) = []"
    using assms by (auto simp: filter_empty_conv updated_keeps)
  have new: "filter (\<lambda>x. option_product x = p) created = created"
    using created_owner [OF info'] by simp
  have "option_set_of (reconcile_options s p specs) p = created"
    by (simp only: option_set_of_def rows filter_append old new append_Nil)
  with created_values [OF info'] show ?thesis by simp
qed

lemma create_Inr_product:
  "create s vd = (Inr q, s') \<Longrightarrow> q = fresh_pk (map product_pk (product_rows s))"
  using super_create_fst [of s "vd\<lparr>pd_tag_set := None\<rparr>"]
  by (auto simp: create_def Let_def split: prod.splits sum.splits)

lemma create_option_rows:
  "option_rows (snd (create s vd)) =
     option_rows (reconcile_options s (fresh_pk (map product_pk (product_rows s)))
        (case pd_option_set vd of Some sps \<Rightarrow> sps | None \<Rightarrow> []))"
  by (simp add: create_snd process_tags_frame super_create_def Let_def reconcile_options_def
      owned_pks_def)

lemma create_stores_options:
  assumes ok: "create s vd = (Inr q, s')"
    and opts: "pd_option_set vd = Some specs"
    and integrity: "\<forall>x\<in>set (option_rows s). product_exists s (option_product x)"
  shows "map (\<lambda>x. (option_name x, option_price x)) (option_set_of s' q)
      = map (\<lambda>sp. (os_name sp, os_price sp)) specs"
proof -
  let ?p = "fresh_pk (map product_pk (product_rows s))"
  have q: "q = ?p" using ok by (rule create_Inr_product)
  have fresh: "\<forall>x\<in>set (option_rows s). option_product x \<noteq> ?p"
  proof
    fix x assume "x \<in> set (option_rows s)"
    with integrity have "option_product x \<in> set (map product_pk (product_rows s))"
      by (simp add: product_exists_def)
    from fresh_pk_gt [OF this] show "option_product x \<noteq> ?p" by simp
  qed
  have "option_rows s' = option_rows (reconcile_options s ?p specs)"
    using create_option_rows [of s vd] ok opts by simp
  then have "option_set_of s' ?p = option_set_of (reconcile_options s ?p specs) ?p"
    by (simp add: option_set_of_def)
  with reconcile_options_fresh [OF fresh, of specs] q show ?thesis by simp
qed

lemma last_spec_mem:
  assumes "q \<in> set (submitted_pks specs)"
  shows "last_spec q specs \<in> set specs"
proof -
  from assms have "filter (\<lambda>sp. os_pk sp = Some q) specs \<noteq> []"
    by (auto simp: set_submitted_pks filter_empty_conv)
  then have "last (filter (\<lambda>sp. os_pk sp = Some q) specs)
      \<in> set (filter (\<lambda>sp. os_pk sp = Some q) specs)"
    by (rule last_in_set)
  then show ?thesis by (simp add: last_spec_def)
qed

lemma update_stores_options:
  assumes opts: "pd_option_set vd = Some specs"
  shows "(\<forall>x\<in>set (option_set_of (snd (update s p vd)) p). \<exists>y\<in>set specs. option_name x = os_name y)
     \<and> (\<forall>y\<in>set specs. \<not> matches (owned_pks s p) y \<longrightarrow>
           (\<exists>x\<in>set (option_set_of (snd (update s p vd)) p).
              option_name x = os_name y \<and> option_price x = os_price y))"
proof -
  let ?s' = "snd (update s p vd)"
  from reconcile_options_rows [of s p specs] obtain created where
    rows: "option_rows (reconcile_options s p specs)
       = map (updated p specs)
           (filter (\<lambda>x. option_product x \<noteq> p \<or> option_pk x \<in> set (submitted_pks specs))
              (option_rows s))
         @ created"
    and info: "map (\<lambda>x. (option_product x, option_name x, option_price x)) created
       = map (\<lambda>sp. (p, os_name sp, os_price sp))
           (filter (\<lambda>sp. \<not> matches (owned_pks s p) sp) specs)"
    by blast
  have eq: "option_rows ?s' = option_rows (reconcile_options s p specs)"
    using opts by (simp add: update_option_rows)
  have names: "\<exists>y\<in>set specs. option_name x = os_name y" if x: "x \<in> set (option_set_of ?s' p)" for x
  proof -
    from x have own: "option_product x = p" and "x \<in> set (option_rows ?s')"
      by (simp_all add: option_set_of_def)
    with eq rows consider
      (old) y where "y \<in> set (option_rows s)" "x = updated p specs y"
        "option_product y \<noteq> p \<or> option_pk y \<in> set (submitted_pks specs)"
      | (new) "x \<in> set created"
      by auto
    then show ?thesis
    proof cases
      case old
      with own have "option_product y = p" by (simp add: updated_keeps)
      with old(3) have sub: "option_pk y \<in> set (submitted_pks specs)" by simp
      with old(2) \<open>option_product y = p\<close>
      have "option_name x = os_name (last_spec (option_pk y) specs)"
        by (simp add: updated_def)
      with last_spec_mem [OF sub] show ?thesis by blast
    next
      case new
      then have "(option_product x, option_name x, option_price x)
          \<in> set (map (\<lambda>x. (option_product x, option_name x, option_price x)) created)"
        by (simp add: image_iff) blast
      with info have "(option_product x, option_name x, option_price x)
          \<in> set (map (\<lambda>sp. (p, os_name sp, os_price sp))
                (filter (\<lambda>sp. \<not> matches (owned_pks s p) sp) specs))"
        by simp
      then show ?thesis by auto
    qed
  qed
  have stored: "\<exists>x\<in>set (option_set_of ?s' p). option_name x = os_name y \<and> option_price x = os_price y"
    if y: "y \<in> set specs" "\<not> matches (owned_pks s p) y" for y
  proof -
    from y have "(p, os_name y, os_price y)
        \<in> set (map (\<lambda>sp. (p, os_name sp, os_price sp))
              (filter (\<lambda>sp. \<not> matches (owned_pks s p) sp) specs))"
      by (simp add: image_iff) blast
    with info have "(p, os_name y, os_price y)
        \<in> set (map (\<lambda>x. (option_product x, option_name x, option_price x)) created)"
      by simp
    then obtain x where "x \<in> set created" "option_product x = p"
      "option_name x = os_name y" "option_price x = os_price y"
      by auto
    moreover from this eq rows have "x \<in> set (option_set_of ?s' p)"
      by (simp add: option_set_of_def)
    ultimately show ?thesis by blast
  qed
  from names stored show ?thesis by blast
qed

lemma matches_trimmed:
  "matches old (y\<lparr>os_name := n\<rparr>) = matches old y"
  by (simp add: matches_def)

lemma view_create_Inr:
  "ProductViewSet_create nf s pd = (Inr q, s') \<Longrightarrow>
   \<exists>vd. run_validation nf pd = Inr vd \<and> create s vd = (Inr q, s')"
  by (cases "run_validation nf pd") (auto simp: ProductViewSet_create_def atomic_Inr)

lemma view_partial_update_Inr:
  "ProductViewSet_partial_update nf s p pd = (Inr q, s') \<Longrightarrow>
   \<exists>vd. run_validation nf pd = Inr vd \<and> update s p vd = (Inr q, s')"
  by (cases "run_validation nf pd")
     (auto simp: ProductViewSet_partial_update_def atomic_Inr split: if_splits)

lemma run_validation_no_tags:
  assumes "\<forall>sp\<in>set sps. strip (os_name sp) \<noteq> []" and "pd_option_set pd = Some sps"
    and "pd_tag_set pd = None \<or> pd_tag_set pd = Some []"
  shows "\<exists>vd. run_validation nf pd = Inr vd
     \<and> (pd_tag_set vd = None \<or> pd_tag_set vd = Some [])"
  using assms by (auto simp: run_validation_def validate_options_eq)

lemma create_succeeds_no_tags:
  assumes "pd_tag_set vd = None \<or> pd_tag_set vd = Some []"
  shows "fst (create s vd) = Inr (fresh_pk (map product_pk (product_rows s)))"
proof -
  obtain product s1 where sc: "super_create s (vd\<lparr>pd_tag_set := None\<rparr>) = (product, s1)"
    by (cases "super_create s (vd\<lparr>pd_tag_set := None\<rparr>)")
  have "product = fresh_pk (map product_pk (product_rows s))"
    using super_create_fst [of s "vd\<lparr>pd_tag_set := None\<rparr>"] sc by simp
  with assms show ?thesis
    by (auto simp: create_eq [OF sc] process_tags_empty)
qed

lemma update_succeeds_no_tags:
  assumes "pd_tag_set vd = None \<or> pd_tag_set vd = Some []"
  shows "fst (update s p vd) = Inr p"
  using assms by (auto simp: update_eq [OF super_update_pair] process_tags_empty)

text \<open>
  Claim C3. For every submitted option entry: if its name is empty or consists of
  whitespace only, validation fails with the error of \<^verbatim>\<open>validate_name\<close> reported
  under the option's name field, and a create or update request carrying it fails with
  that error and leaves the store unchanged; otherwise the entry is accepted with its
  name stripped of leading and trailing whitespace (a request whose option names are
  all accepted and that submits no tags succeeds), and this is the name that is stored
  and returned: after a successful create request the options of the new product are
  the submitted entries, in order, each with the stripped name and its price, and after
  a successful update request every option of the product bears the stripped name of a
  submitted entry and every entry that creates an option is stored with its stripped
  name and price.
\<close>

theorem option_name_validation:
  assumes "pd_option_set pd = Some sps" and "sp \<in> set sps"
  shows
    "(if strip (os_name sp) = [] then
        validate_option sp = Inl (ValidationError [''option_set'', ''name''] OptionNameRequired)
        \<and> ProductViewSet_create nf s pd
            = (Inl (ValidationError [''option_set'', ''name''] OptionNameRequired), s)
        \<and> (product_exists s p \<longrightarrow>
             ProductViewSet_partial_update nf s p pd
               = (Inl (ValidationError [''option_set'', ''name''] OptionNameRequired), s))
      else validate_option sp = Inr (sp\<lparr>os_name := strip (os_name sp)\<rparr>)
        \<and> \<not> is_space (hd (strip (os_name sp))) \<and> \<not> is_space (last (strip (os_name sp))))
     \<and> (\<exists>l r. os_name sp = l @ strip (os_name sp) @ r
               \<and> (\<forall>c\<in>set l. is_space c) \<and> (\<forall>c\<in>set r. is_space c))
     \<and> ((\<forall>x\<in>set sps. strip (os_name x) \<noteq> []) \<longrightarrow>
          validate_options sps = Inr (map (\<lambda>x. x\<lparr>os_name := strip (os_name x)\<rparr>) sps))
     \<and> (\<forall>vd. run_validation nf pd = Inr vd \<longrightarrow>
          pd_option_set vd = Some (map (\<lambda>x. x\<lparr>os_name := strip (os_name x)\<rparr>) sps))
     \<and> ((\<forall>x\<in>set sps. strip (os_name x) \<noteq> [])
          \<and> (pd_tag_set pd = None \<or> pd_tag_set pd = Some []) \<longrightarrow>
          fst (ProductViewSet_create nf s pd) = Inr (fresh_pk (map product_pk (product_rows s)))
          \<and> (product_exists s p \<longrightarrow> fst (ProductViewSet_partial_update nf s p pd) = Inr p))
     \<and> (\<forall>q s'. ProductViewSet_create nf s pd = (Inr q, s')
          \<and> (\<forall>x\<in>set (option_rows s). product_exists s (option_product x)) \<longrightarrow>
          map (\<lambda>x. (option_name x, option_price x)) (option_set_of s' q)
            = map (\<lambda>y. (strip (os_name y), os_price y)) sps)
     \<and> (\<forall>q s'. ProductViewSet_partial_update nf s p pd = (Inr q, s') \<longrightarrow>
          (\<forall>x\<in>set (option_set_of s' p). \<exists>y\<in>set sps. option_name x = strip (os_name y))
          \<and> (\<forall>y\<in>set sps. \<not> matches (owned_pks s p) y \<longrightarrow>
                (\<exists>x\<in>set (option_set_of s' p).
                   option_name x = strip (os_name y) \<and> option_price x = os_price y)))"
proof -
  let ?E = "ValidationError [''option_set'', ''name''] OptionNameRequired"
  let ?trim = "\<lambda>x. x\<lparr>os_name := strip (os_name x)\<rparr>"
  have blank: "run_validation nf pd = Inl ?E" if "strip (os_name sp) = []"
    using run_validation_blank [OF assms(1), of nf] assms(2) that by blast
  have first: "(if strip (os_name sp) = [] then
        validate_option sp = Inl ?E
        \<and> ProductViewSet_create nf s pd = (Inl ?E, s)
        \<and> (product_exists s p \<longrightarrow> ProductViewSet_partial_update nf s p pd = (Inl ?E, s))
      else validate_option sp = Inr (sp\<lparr>os_name := strip (os_name sp)\<rparr>)
        \<and> \<not> is_space (hd (strip (os_name sp))) \<and> \<not> is_space (last (strip (os_name sp))))"
    using blank strip_hd [of "os_name sp"] strip_last [of "os_name sp"]
    by (simp add: validate_option_eq ProductViewSet_create_def
        ProductViewSet_partial_update_def)
  have all_ok: "validate_options sps = Inr (map ?trim sps)"
    if "\<forall>x\<in>set sps. strip (os_name x) \<noteq> []"
    using that by (simp add: validate_options_eq)
  have validated: "pd_option_set vd = Some (map ?trim sps)"
    if "run_validation nf pd = Inr vd" for vd
    using run_validation_Inr(2) [OF that] assms(1) by simp
  have created: "map (\<lambda>x. (option_name x, option_price x)) (option_set_of s' q)
            = map (\<lambda>y. (strip (os_name y), os_price y)) sps"
    if ok: "ProductViewSet_create nf s pd = (Inr q, s')"
      and integrity: "\<forall>x\<in>set (option_rows s). product_exists s (option_product x)" for q s'
  proof -
    from view_create_Inr [OF ok] obtain vd where
      rv: "run_validation nf pd = Inr vd" and cr: "create s vd = (Inr q, s')" by blast
    from create_stores_options [OF cr validated [OF rv] integrity]
    show ?thesis by (simp add: comp_def)
  qed
  have updated: "(\<forall>x\<in>set (option_set_of s' p). \<exists>y\<in>set sps. option_name x = strip (os_name y))
          \<and> (\<forall>y\<in>set sps. \<not> matches (owned_pks s p) y \<longrightarrow>
                (\<exists>x\<in>set (option_set_of s' p).
                   option_name x = strip (os_name y) \<and> option_price x = os_price y))"
    if ok: "ProductViewSet_partial_update nf s p pd = (Inr q, s')" for q s'
  proof -
    from view_partial_update_Inr [OF ok] obtain vd where
      rv: "run_validation nf pd = Inr vd" and up: "update s p vd = (Inr q, s')" by blast
    from up have s': "s' = snd (update s p vd)" by simp
    from update_stores_options [OF validated [OF rv], of s p] show ?thesis
      unfolding s' by (simp add: matches_trimmed)
  qed
  have succeeds: "fst (ProductViewSet_create nf s pd)
        = Inr (fresh_pk (map product_pk (product_rows s)))
      \<and> (product_exists s p \<longrightarrow> fst (ProductViewSet_partial_update nf s p pd) = Inr p)"
    if "\<forall>x\<in>set sps. strip (os_name x) \<noteq> []" "pd_tag_set pd = None \<or> pd_tag_set pd = Some []"
  proof -
    from run_validation_no_tags [OF that(1) assms(1) that(2), of nf] obtain vd where
      rv: "run_validation nf pd = Inr vd"
      and nt: "pd_tag_set vd = None \<or> pd_tag_set vd = Some []"
      by blast
    from rv show ?thesis
      by (simp add: ProductViewSet_create_def ProductViewSet_partial_update_def atomic_fst
          create_succeeds_no_tags [OF nt] update_succeeds_no_tags [OF nt])
  qed
  from first strip_decomp [of "os_name sp"] all_ok validated succeeds created updated
  show ?thesis by blast
qed

theorem option_name_validation_witness:
  "validate_option \<lparr>os_pk = None, os_name = '' A '', os_price = 1000\<rparr>
     = Inr \<lparr>os_pk = None, os_name = ''A'', os_price = 1000\<rparr>
   \<and> ProductViewSet_create plain_field empty_store
        \<lparr>pd_name = Some ''P'',
         pd_option_set = Some [\<lparr>os_pk = None, os_name = ''  '', os_price = 1000\<rparr>],
         pd_tag_set = Some []\<rparr>
     = (Inl (ValidationError [''option_set'', ''name''] OptionNameRequired), empty_store)
   \<and> map (\<lambda>x. (option_name x, option_price x))
        (option_set_of (snd (ProductViewSet_create plain_field empty_store
           \<lparr>pd_name = Some ''P'',
            pd_option_set = Some [\<lparr>os_pk = None, os_name = '' A '', os_price = 1000\<rparr>],
            pd_tag_set = Some []\<rparr>)) 1)
     = [(''A'', 1000)]"
proof -
  let ?a = "\<lparr>os_pk = None, os_name = '' A '', os_price = 1000\<rparr>"
  let ?b = "\<lparr>os_pk = None, os_name = ''  '', os_price = 1000\<rparr>"
  let ?pa = "\<lparr>pd_name = Some ''P'', pd_option_set = Some [?a], pd_tag_set = Some []\<rparr>"
  let ?pb = "\<lparr>pd_name = Some ''P'', pd_option_set = Some [?b], pd_tag_set = Some []\<rparr>"
  define s' where "s' = snd (ProductViewSet_create plain_field empty_store ?pa)"
  have sa: "strip '' A '' = ''A''" by (simp add: strip_def is_space_simps)
  have sb: "strip ''  '' = []" by (simp add: strip_def is_space_simps)
  have ha: "pd_option_set ?pa = Some [?a]" and hb: "pd_option_set ?pb = Some [?b]" by simp_all
  have ma: "?a \<in> set [?a]" and mb: "?b \<in> set [?b]" by simp_all
  have ok: "ProductViewSet_create plain_field empty_store ?pa = (Inr 1, s')
      \<and> (\<forall>x\<in>set (option_rows empty_store). product_exists empty_store (option_product x))"
    by (simp add: s'_def store_evals ProductViewSet_create_def run_validation_def
        plain_field_def atomic_def validate_option_def validate_name_def sa)
  note va = option_name_validation [OF ha ma, of plain_field empty_store 0]
  note vb = option_name_validation [OF hb mb, of plain_field empty_store 0]
  from va have 1: "validate_option ?a = Inr (?a\<lparr>os_name := ''A''\<rparr>)" by (simp add: sa)
  from vb have 2: "ProductViewSet_create plain_field empty_store ?pb
      = (Inl (ValidationError [''option_set'', ''name''] OptionNameRequired), empty_store)"
    by (simp add: sb)
  from va ok have "map (\<lambda>x. (option_name x, option_price x)) (option_set_of s' 1)
      = map (\<lambda>y. (strip (os_name y), os_price y)) [?a]"
    by blast
  then have 3: "map (\<lambda>x. (option_name x, option_price x)) (option_set_of s' 1) = [(''A'', 1000)]"
    by (simp add: sa)
  from 1 2 3 show ?thesis by (simp add: s'_def)
qed

end
